theory Spec2Isabelle
  imports Main
begin

section \<open>The cancellation signal of asio: data model\<close>

text \<open>
  The source is \<^verbatim>\<open>asio/include/asio/cancellation_signal.hpp\<close>. A signal object holds one
  field, \<^verbatim>\<open>handler_\<close>, a nullable pointer to a type-erased handler record on the heap. A
  slot holds a nullable pointer to that field of its signal. The model makes the memory
  the code works on explicit:
  \<^item> an address names one heap block (one result of \<^verbatim>\<open>::operator new\<close>); a pointer is an
    optional address, \<open>None\<close> being the null pointer;
  \<^item> a location names one signal object, that is the storage of its \<^verbatim>\<open>handler_\<close> field;
  \<^item> \<^verbatim>\<open>std::size_t\<close> values are natural numbers: the code only compares them.
\<close>

type_synonym addr = nat
type_synonym ptr = "addr option"
type_synonym loc = nat

text \<open>
  The two realizations of a handler record: the primary template
  \<^verbatim>\<open>cancellation_handler<Context, Handler>\<close> with the members \<^verbatim>\<open>handler_\<close>, \<^verbatim>\<open>context_\<close>,
  \<^verbatim>\<open>size_\<close>, and the specialization \<^verbatim>\<open>cancellation_handler<void, Handler>\<close> with
  \<^verbatim>\<open>handler_\<close>, \<^verbatim>\<open>size_\<close>. The last component, \<open>sizeof_self\<close>, is not a member: it is
  \<^verbatim>\<open>sizeof(cancellation_handler)\<close> of the object's dynamic type, which the object's
  virtual table pointer fixes. A name cannot end in an underscore here, so the members
  are \<open>rec_handler\<close>, \<open>rec_context\<close>, \<open>rec_size\<close>, and the slot's is \<open>slot_handler\<close>.
\<close>

datatype ('h, 'c) cancellation_handler =
    With_context (rec_handler: 'h) (rec_context: 'c) (rec_size: nat) (sizeof_self: nat)
  | Without_context (rec_handler: 'h) (rec_size: nat) (sizeof_self: nat)

text \<open>A reference to the \<^verbatim>\<open>context_\<close> member of the record at an address.\<close>

datatype context_ref = Context_of addr

text \<open>
  What the calls of user handlers leave behind: \<^verbatim>\<open>handler_(context_)\<close> passes the context
  by reference, \<^verbatim>\<open>handler_()\<close> passes nothing. The body of a handler is user code.
\<close>

datatype 'h invocation = Call_with_context 'h context_ref | Call_without_context 'h

text \<open>A slot: the private member \<^verbatim>\<open>cancellation_handler_base** handler_\<close>.\<close>

datatype cancellation_slot = Cancellation_slot (slot_handler: "loc option")

text \<open>
  The state of the program:
  \<^item> \<open>signals\<close>: the live signal objects, each with the value of its \<^verbatim>\<open>handler_\<close> field;
  \<^item> \<open>blocks\<close>: the live heap blocks with the size each was allocated with;
  \<^item> \<open>objects\<close>: the handler records that are constructed and not yet destroyed (the
    constructor has run, the destructor has not);
  \<^item> \<open>next_addr\<close>: the address \<^verbatim>\<open>::operator new\<close> returns next (a block is never
    confused with an earlier one);
  \<^item> \<open>new_log\<close>, \<open>delete_log\<close>: the allocation-counting harness, every block allocated
    (with its size) and every block freed, in order;
  \<^item> \<open>new_fails\<close>: the outcomes of the coming calls of \<^verbatim>\<open>::operator new\<close>, \<open>True\<close> for
    \<^verbatim>\<open>std::bad_alloc\<close> (none left: the call succeeds);
  \<^item> \<open>calls\<close>: the handler invocations so far, in order.
\<close>

record ('h, 'c) world =
  signals :: "loc \<rightharpoonup> ptr"
  blocks :: "addr \<rightharpoonup> nat"
  objects :: "addr \<rightharpoonup> ('h, 'c) cancellation_handler"
  next_addr :: addr
  new_log :: "(addr \<times> nat) list"
  delete_log :: "addr list"
  new_fails :: "bool list"
  calls :: "'h invocation list"

text \<open>
  How a call ends: it returns a value, it throws (an exception leaves the function), the
  \<^verbatim>\<open>assert\<close> of the source fails (the program halts; the model is of a build that checks
  assertions), or the behaviour is undefined in C++ (a dangling or null pointer is
  dereferenced, a block is freed twice).
\<close>

datatype exn = Bad_alloc | User_exception nat

datatype ('r, 's) outcome =
    Returns 'r 's
  | Throws exn 's
  | Assertion_failed
  | Undefined_behaviour

fun and_then :: "('r, 's) outcome \<Rightarrow> ('r \<Rightarrow> 's \<Rightarrow> ('q, 's) outcome) \<Rightarrow> ('q, 's) outcome" where
  "and_then (Returns r s) f = f r s"
| "and_then (Throws e s) f = Throws e s"
| "and_then Assertion_failed f = Assertion_failed"
| "and_then Undefined_behaviour f = Undefined_behaviour"

section \<open>The allocator\<close>

text \<open>\<^verbatim>\<open>::operator new(n)\<close>: throws \<^verbatim>\<open>std::bad_alloc\<close> or returns a fresh block of n bytes.\<close>

definition operator_new :: "nat \<Rightarrow> ('h, 'c) world \<Rightarrow> (addr, ('h, 'c) world) outcome" where
  "operator_new n w =
     (case new_fails w of
        True # fs \<Rightarrow> Throws Bad_alloc (w\<lparr>new_fails := fs\<rparr>)
      | _ \<Rightarrow>
          Returns (next_addr w)
            (w\<lparr>blocks := (blocks w)(next_addr w \<mapsto> n),
               next_addr := Suc (next_addr w),
               new_log := new_log w @ [(next_addr w, n)],
               new_fails := tl (new_fails w)\<rparr>))"

text \<open>
  \<^verbatim>\<open>::operator delete(p)\<close>: nothing for the null pointer; a live block is released;
  anything else is a double free. It releases storage only: it runs no destructor, so
  it leaves \<open>objects\<close> as it is. A record is destroyed by \<^verbatim>\<open>destroy()\<close> and by nothing
  else.
\<close>

definition operator_delete :: "ptr \<Rightarrow> ('h, 'c) world \<Rightarrow> (unit, ('h, 'c) world) outcome" where
  "operator_delete p w =
     (case p of
        None \<Rightarrow> Returns () w
      | Some a \<Rightarrow>
          (case blocks w a of
             None \<Rightarrow> Undefined_behaviour
           | Some n \<Rightarrow>
               Returns ()
                 (w\<lparr>blocks := (blocks w)(a := None),
                    delete_log := delete_log w @ [a]\<rparr>)))"

section \<open>The handler record\<close>

text \<open>
  The private constructors. The member initializers run in the order of the members:
  \<^verbatim>\<open>handler_\<close> from the handler (the \<open>Handler\<close> type's copy or move constructor),
  \<^verbatim>\<open>context_\<close> from the arguments (a constructor of \<open>Context\<close>), then \<^verbatim>\<open>size_(size)\<close> (here \<open>cap\<close>). The
  two user constructors are parameters; each returns the value built or throws.
  \<open>sz\<close> is \<^verbatim>\<open>sizeof(cancellation_handler)\<close> of the realization.
\<close>

definition cancellation_handler_ctor ::
  "nat \<Rightarrow> ('x \<Rightarrow> exn + 'h) \<Rightarrow> ('a \<Rightarrow> exn + 'c) \<Rightarrow> nat \<Rightarrow> 'x \<Rightarrow> 'a
    \<Rightarrow> exn + ('h, 'c) cancellation_handler" where
  "cancellation_handler_ctor sz Handler Context cap handler args =
     (case Handler handler of
        Inl e \<Rightarrow> Inl e
      | Inr h \<Rightarrow>
          (case Context args of
             Inl e \<Rightarrow> Inl e
           | Inr c \<Rightarrow> Inr (With_context h c cap sz)))"

definition cancellation_handler_void_ctor ::
  "nat \<Rightarrow> ('x \<Rightarrow> exn + 'h) \<Rightarrow> nat \<Rightarrow> 'x \<Rightarrow> exn + ('h, 'c) cancellation_handler" where
  "cancellation_handler_void_ctor sz Handler cap handler =
     (case Handler handler of
        Inl e \<Rightarrow> Inl e
      | Inr h \<Rightarrow> Inr (Without_context h cap sz))"

text \<open>
  The placement new expression \<^verbatim>\<open>new (mem.first) cancellation_handler(...)\<close>: the object
  is constructed in the storage at the pointer. The storage must be a live block, large
  enough and holding no object; the code checks none of this.
\<close>

definition placement_new ::
  "ptr \<Rightarrow> nat \<Rightarrow> exn + ('h, 'c) cancellation_handler \<Rightarrow> ('h, 'c) world
    \<Rightarrow> (addr, ('h, 'c) world) outcome" where
  "placement_new p sz built w =
     (case p of
        None \<Rightarrow> Undefined_behaviour
      | Some a \<Rightarrow>
          (case blocks w a of
             None \<Rightarrow> Undefined_behaviour
           | Some cap \<Rightarrow>
               if cap < sz \<or> objects w a \<noteq> None then Undefined_behaviour
               else
                 (case built of
                    Inl e \<Rightarrow> Throws e w
                  | Inr r \<Rightarrow> Returns a (w\<lparr>objects := (objects w)(a \<mapsto> r)\<rparr>))))"

text \<open>
  \<^verbatim>\<open>create\<close>, the body the two class templates share word for word; \<open>ctor\<close> is the
  constructor call of the realization, given the size to store.
\<close>

definition create_with ::
  "nat \<Rightarrow> (nat \<Rightarrow> exn + ('h, 'c) cancellation_handler) \<Rightarrow> ptr \<times> nat \<Rightarrow> ('h, 'c) world
    \<Rightarrow> (addr, ('h, 'c) world) outcome" where
  "create_with sz ctor mem w =
     and_then
       (if sz > snd mem then
          and_then (operator_delete (fst mem) w) (\<lambda>_ w1.
          and_then (operator_new sz w1) (\<lambda>p w2.
          Returns (Some p, sz) w2))
        else Returns mem w)
       (\<lambda>mem' w3.
          (case placement_new (fst mem') sz (ctor (snd mem')) w3 of
             Throws e w4 \<Rightarrow> and_then (operator_delete (fst mem') w4) (\<lambda>_ w5. Throws e w5)
           | other \<Rightarrow> other))"

definition create ::
  "nat \<Rightarrow> ('x \<Rightarrow> exn + 'h) \<Rightarrow> ('a \<Rightarrow> exn + 'c) \<Rightarrow> ptr \<times> nat \<Rightarrow> 'x \<Rightarrow> 'a \<Rightarrow> ('h, 'c) world
    \<Rightarrow> (addr, ('h, 'c) world) outcome" where
  "create sz Handler Context mem handler args w =
     create_with sz (\<lambda>cap. cancellation_handler_ctor sz Handler Context cap handler args) mem w"

definition create_void ::
  "nat \<Rightarrow> ('x \<Rightarrow> exn + 'h) \<Rightarrow> ptr \<times> nat \<Rightarrow> 'x \<Rightarrow> ('h, 'c) world
    \<Rightarrow> (addr, ('h, 'c) world) outcome" where
  "create_void sz Handler mem handler w =
     create_with sz (\<lambda>cap. cancellation_handler_void_ctor sz Handler cap handler) mem w"

text \<open>The virtual \<^verbatim>\<open>call()\<close> on the record at an address.\<close>

definition call :: "addr \<Rightarrow> ('h, 'c) world \<Rightarrow> (unit, ('h, 'c) world) outcome" where
  "call a w =
     (case objects w a of
        None \<Rightarrow> Undefined_behaviour
      | Some (With_context h c n k) \<Rightarrow>
          Returns () (w\<lparr>calls := calls w @ [Call_with_context h (Context_of a)]\<rparr>)
      | Some (Without_context h n k) \<Rightarrow>
          Returns () (w\<lparr>calls := calls w @ [Call_without_context h]\<rparr>))"

text \<open>
  The virtual \<^verbatim>\<open>destroy()\<close>: the pair of \<^verbatim>\<open>this\<close> and \<^verbatim>\<open>size_\<close>, and the destructor has
  run; the block stays allocated.
\<close>

definition destroy :: "addr \<Rightarrow> ('h, 'c) world \<Rightarrow> (ptr \<times> nat, ('h, 'c) world) outcome" where
  "destroy a w =
     (case objects w a of
        None \<Rightarrow> Undefined_behaviour
      | Some r \<Rightarrow> Returns (Some a, rec_size r) (w\<lparr>objects := (objects w)(a := None)\<rparr>))"

text \<open>The member function \<^verbatim>\<open>context()\<close>: a reference to the member \<^verbatim>\<open>context_\<close>.\<close>

definition context_member :: "addr \<Rightarrow> context_ref" where
  "context_member a = Context_of a"

section \<open>The signal\<close>

text \<open>The constructor, for a signal object placed at a location that holds none.\<close>

definition cancellation_signal :: "loc \<Rightarrow> ('h, 'c) world \<Rightarrow> (unit, ('h, 'c) world) outcome" where
  "cancellation_signal s w =
     (case signals w s of
        Some p \<Rightarrow> Undefined_behaviour
      | None \<Rightarrow> Returns () (w\<lparr>signals := (signals w)(s \<mapsto> None)\<rparr>))"

text \<open>The destructor; afterwards the signal object is gone.\<close>

definition cancellation_signal_dtor ::
  "loc \<Rightarrow> ('h, 'c) world \<Rightarrow> (unit, ('h, 'c) world) outcome" where
  "cancellation_signal_dtor s w =
     (case signals w s of
        None \<Rightarrow> Undefined_behaviour
      | Some p \<Rightarrow>
          and_then
            (case p of
               None \<Rightarrow> Returns () w
             | Some a \<Rightarrow> and_then (destroy a w) (\<lambda>mem w1. operator_delete (fst mem) w1))
            (\<lambda>_ w2. Returns () (w2\<lparr>signals := (signals w2)(s := None)\<rparr>)))"

definition emit :: "loc \<Rightarrow> ('h, 'c) world \<Rightarrow> (unit, ('h, 'c) world) outcome" where
  "emit s w =
     (case signals w s of
        None \<Rightarrow> Undefined_behaviour
      | Some None \<Rightarrow> Returns () w
      | Some (Some a) \<Rightarrow> call a w)"

text \<open>\<^verbatim>\<open>slot()\<close> of the signal at a location: \<^verbatim>\<open>cancellation_slot(0, &handler_)\<close>.\<close>

definition slot :: "loc \<Rightarrow> cancellation_slot" where
  "slot s = Cancellation_slot (Some s)"

section \<open>The slot\<close>

text \<open>The public constructor: \<^verbatim>\<open>handler_(0)\<close>.\<close>

definition default_slot :: cancellation_slot where
  "default_slot = Cancellation_slot None"

text \<open>
  The body the two \<^verbatim>\<open>emplace\<close> templates share up to the assignment of \<^verbatim>\<open>*handler_\<close>.
  A default-constructed pair \<^verbatim>\<open>mem\<close> is the null pointer and 0.
\<close>

definition emplace_with ::
  "(ptr \<times> nat \<Rightarrow> ('h, 'c) world \<Rightarrow> (addr, ('h, 'c) world) outcome) \<Rightarrow> cancellation_slot
    \<Rightarrow> ('h, 'c) world \<Rightarrow> (addr, ('h, 'c) world) outcome" where
  "emplace_with creator sl w =
     (case slot_handler sl of
        None \<Rightarrow> Assertion_failed
      | Some s \<Rightarrow>
          (case signals w s of
             None \<Rightarrow> Undefined_behaviour
           | Some p \<Rightarrow>
               and_then
                 (case p of
                    None \<Rightarrow> Returns (None, 0) w
                  | Some a \<Rightarrow>
                      and_then (destroy a w) (\<lambda>mem w1.
                      Returns mem (w1\<lparr>signals := (signals w1)(s \<mapsto> None)\<rparr>)))
                 (\<lambda>mem w2.
                    and_then (creator mem w2) (\<lambda>handler_obj w3.
                    Returns handler_obj
                      (w3\<lparr>signals := (signals w3)(s \<mapsto> Some handler_obj)\<rparr>)))))"

definition emplace ::
  "nat \<Rightarrow> ('x \<Rightarrow> exn + 'h) \<Rightarrow> ('a \<Rightarrow> exn + 'c) \<Rightarrow> cancellation_slot \<Rightarrow> 'x \<Rightarrow> 'a
    \<Rightarrow> ('h, 'c) world \<Rightarrow> (context_ref, ('h, 'c) world) outcome" where
  "emplace sz Handler Context sl handler args w =
     and_then
       (emplace_with (\<lambda>mem. create sz Handler Context mem handler args) sl w)
       (\<lambda>handler_obj w'. Returns (context_member handler_obj) w')"

definition emplace_void ::
  "nat \<Rightarrow> ('x \<Rightarrow> exn + 'h) \<Rightarrow> cancellation_slot \<Rightarrow> 'x
    \<Rightarrow> ('h, 'c) world \<Rightarrow> (unit, ('h, 'c) world) outcome" where
  "emplace_void sz Handler sl handler w =
     and_then
       (emplace_with (\<lambda>mem. create_void sz Handler mem handler) sl w)
       (\<lambda>handler_obj w'. Returns () w')"

definition clear :: "cancellation_slot \<Rightarrow> ('h, 'c) world \<Rightarrow> (unit, ('h, 'c) world) outcome" where
  "clear sl w =
     (case slot_handler sl of
        None \<Rightarrow> Returns () w
      | Some s \<Rightarrow>
          (case signals w s of
             None \<Rightarrow> Undefined_behaviour
           | Some None \<Rightarrow> Returns () w
           | Some (Some a) \<Rightarrow>
               and_then (destroy a w) (\<lambda>mem w1.
               and_then (operator_delete (fst mem) w1) (\<lambda>_ w2.
               Returns () (w2\<lparr>signals := (signals w2)(s \<mapsto> None)\<rparr>)))))"

definition is_connected :: "cancellation_slot \<Rightarrow> bool" where
  "is_connected sl = (slot_handler sl \<noteq> None)"

text \<open>
  \<^verbatim>\<open>has_handler\<close> reads \<^verbatim>\<open>*handler_\<close> when the slot is connected: \<open>None\<close> when that read
  is of a signal that is gone.
\<close>

definition has_handler :: "cancellation_slot \<Rightarrow> ('h, 'c) world \<Rightarrow> bool option" where
  "has_handler sl w =
     (case slot_handler sl of
        None \<Rightarrow> Some False
      | Some s \<Rightarrow>
          (case signals w s of
             None \<Rightarrow> None
           | Some p \<Rightarrow> Some (p \<noteq> None)))"

definition slot_eq :: "cancellation_slot \<Rightarrow> cancellation_slot \<Rightarrow> bool" where
  "slot_eq lhs rhs = (slot_handler lhs = slot_handler rhs)"

definition slot_neq :: "cancellation_slot \<Rightarrow> cancellation_slot \<Rightarrow> bool" where
  "slot_neq lhs rhs = (slot_handler lhs \<noteq> slot_handler rhs)"

section \<open>Programs over the interface\<close>

text \<open>
  One call of the public interface. The user constructors of an \<^verbatim>\<open>emplace\<close> come with the
  call, as the template arguments do in the source.
\<close>

datatype ('x, 'a, 'h, 'c) operation =
    Construct_signal loc
  | Destroy_signal loc
  | Emit loc
  | Emplace nat "'x \<Rightarrow> exn + 'h" "'a \<Rightarrow> exn + 'c" cancellation_slot 'x 'a
  | Emplace_void nat "'x \<Rightarrow> exn + 'h" cancellation_slot 'x
  | Clear cancellation_slot

fun exec :: "('x, 'a, 'h, 'c) operation \<Rightarrow> ('h, 'c) world \<Rightarrow> (unit, ('h, 'c) world) outcome" where
  "exec (Construct_signal s) w = cancellation_signal s w"
| "exec (Destroy_signal s) w = cancellation_signal_dtor s w"
| "exec (Emit s) w = emit s w"
| "exec (Emplace sz Handler Context sl handler args) w =
     and_then (emplace sz Handler Context sl handler args w) (\<lambda>_ w'. Returns () w')"
| "exec (Emplace_void sz Handler sl handler) w = emplace_void sz Handler sl handler w"
| "exec (Clear sl) w = clear sl w"

text \<open>The state a call leaves behind, when the program goes on after it.\<close>

fun continues :: "('r, 's) outcome \<Rightarrow> 's option" where
  "continues (Returns r s) = Some s"
| "continues (Throws e s) = Some s"
| "continues Assertion_failed = None"
| "continues Undefined_behaviour = None"

text \<open>The program start: no signal, an empty heap, an allocator that will not fail.\<close>

definition initial_world :: "('h, 'c) world" where
  "initial_world =
     \<lparr>signals = Map.empty, blocks = Map.empty, objects = Map.empty, next_addr = 0,
      new_log = [], delete_log = [], new_fails = [], calls = []\<rparr>"

text \<open>
  The states a program can be in: the start, with any schedule of allocation failures,
  and what calls of the interface make of a state, whether they return or throw.
  Handlers and constructor arguments are passed as numbers here.
\<close>

inductive reachable :: "('h, 'c) world \<Rightarrow> bool" where
  start: "reachable (initial_world\<lparr>new_fails := fs\<rparr>)"
| step: "reachable w \<Longrightarrow> continues (exec (op :: (nat, nat, 'h, 'c) operation) w) = Some w'
          \<Longrightarrow> reachable w'"

section \<open>The invariant of the memory protocol\<close>

text \<open>
  The harness is consistent: a live block was allocated with its size, addresses that
  were handed out lie below the next one, no block was allocated or freed twice, and
  the allocated blocks are the live ones and the freed ones.
\<close>

definition alloc_ok :: "('h, 'c) world \<Rightarrow> bool" where
  "alloc_ok w \<longleftrightarrow>
     (\<forall>a n. blocks w a = Some n \<longrightarrow> (a, n) \<in> set (new_log w))
   \<and> (\<forall>a. a \<in> fst ` set (new_log w) \<longrightarrow> a < next_addr w)
   \<and> distinct (map fst (new_log w))
   \<and> distinct (delete_log w)
   \<and> (\<forall>a. a \<in> fst ` set (new_log w) \<longleftrightarrow> blocks w a \<noteq> None \<or> a \<in> set (delete_log w))
   \<and> (\<forall>a. a \<in> set (delete_log w) \<longrightarrow> blocks w a = None)"

text \<open>
  While \<^verbatim>\<open>emplace\<close> runs, one block \<open>m\<close> may be in the hands of the running function:
  live, referenced by no signal. Apart from it, the parts of the invariant are:
  a signal's pointer is to a constructed record;
\<close>

definition installed_ok :: "ptr \<Rightarrow> ('h, 'c) world \<Rightarrow> bool" where
  "installed_ok m w \<longleftrightarrow>
     (\<forall>s a. signals w s = Some (Some a) \<longrightarrow> objects w a \<noteq> None \<and> m \<noteq> Some a)"

text \<open>a record sits in a live block, stores the size of that block, and fits in it;\<close>

definition records_ok :: "('h, 'c) world \<Rightarrow> bool" where
  "records_ok w \<longleftrightarrow>
     (\<forall>a r. objects w a = Some r \<longrightarrow>
        blocks w a = Some (rec_size r) \<and> sizeof_self r \<le> rec_size r)"

text \<open>every live block belongs to a signal (nothing leaks),\<close>

definition owned_ok :: "ptr \<Rightarrow> ('h, 'c) world \<Rightarrow> bool" where
  "owned_ok m w \<longleftrightarrow>
     (\<forall>a n. blocks w a = Some n \<longrightarrow> m = Some a \<or> (\<exists>s. signals w s = Some (Some a)))"

text \<open>and to one signal only;\<close>

definition unique_owner :: "('h, 'c) world \<Rightarrow> bool" where
  "unique_owner w \<longleftrightarrow>
     (\<forall>s s' a. signals w s = Some (Some a) \<longrightarrow> signals w s' = Some (Some a) \<longrightarrow> s = s')"

text \<open>the block in hand is live.\<close>

definition pending_ok :: "ptr \<Rightarrow> ('h, 'c) world \<Rightarrow> bool" where
  "pending_ok m w \<longleftrightarrow> (\<forall>a. m = Some a \<longrightarrow> blocks w a \<noteq> None)"

definition heap_ok :: "ptr \<Rightarrow> ('h, 'c) world \<Rightarrow> bool" where
  "heap_ok m w \<longleftrightarrow>
     installed_ok m w \<and> records_ok w \<and> owned_ok m w \<and> unique_owner w \<and> pending_ok m w
     \<and> alloc_ok w"

text \<open>Between two calls of the interface no block is in hand.\<close>

definition wf :: "('h, 'c) world \<Rightarrow> bool" where
  "wf w \<longleftrightarrow> heap_ok None w"

text \<open>
  What both private constructors do: the record built stores the size it was given and
  has the realization's \<^verbatim>\<open>sizeof\<close>.
\<close>

definition ctor_ok :: "nat \<Rightarrow> (nat \<Rightarrow> exn + ('h, 'c) cancellation_handler) \<Rightarrow> bool" where
  "ctor_ok sz ctor \<longleftrightarrow> (\<forall>n r. ctor n = Inr r \<longrightarrow> rec_size r = n \<and> sizeof_self r = sz)"

text \<open>Whether the next call of \<^verbatim>\<open>::operator new\<close> returns a block.\<close>

definition new_succeeds :: "('h, 'c) world \<Rightarrow> bool" where
  "new_succeeds w = (case new_fails w of True # fs \<Rightarrow> False | _ \<Rightarrow> True)"

text \<open>The entry of the invocation trace that \<^verbatim>\<open>call()\<close> on a record at an address makes.\<close>

fun invocation_of :: "addr \<Rightarrow> ('h, 'c) cancellation_handler \<Rightarrow> 'h invocation" where
  "invocation_of a (With_context h c n k) = Call_with_context h (Context_of a)"
| "invocation_of a (Without_context h n k) = Call_without_context h"

text \<open>
  The capacity \<^verbatim>\<open>emplace\<close> has in hand when it calls \<^verbatim>\<open>create\<close>: what \<^verbatim>\<open>destroy()\<close> of
  the installed record reports, and 0 when the signal's pointer is null.
\<close>

definition reusable_size :: "ptr \<Rightarrow> ('h, 'c) world \<Rightarrow> nat" where
  "reusable_size p w =
     (case p of
        None \<Rightarrow> 0
      | Some a \<Rightarrow> (case objects w a of None \<Rightarrow> 0 | Some r \<Rightarrow> rec_size r))"

text \<open>Worlds for the examples: one signal at location 0, without and with a handler.\<close>

definition world_empty_signal :: "(nat, nat) world" where
  "world_empty_signal = initial_world\<lparr>signals := [0 \<mapsto> None]\<rparr>"

definition world_installed :: "(nat, nat) world" where
  "world_installed =
     \<lparr>signals = [0 \<mapsto> Some 0], blocks = [0 \<mapsto> 64],
      objects = [0 \<mapsto> With_context 7 9 64 64], next_addr = 1,
      new_log = [(0, 64)], delete_log = [], new_fails = [], calls = []\<rparr>"

text \<open>Two signals, at the locations 0 and 1, each with a handler in a block of its own.\<close>

definition world_two_installed :: "(nat, nat) world" where
  "world_two_installed =
     \<lparr>signals = [0 \<mapsto> Some 0, 1 \<mapsto> Some 1], blocks = [0 \<mapsto> 64, 1 \<mapsto> 64],
      objects = [0 \<mapsto> With_context 7 9 64 64, 1 \<mapsto> With_context 7 9 64 64],
      next_addr = 2, new_log = [(0, 64), (1, 64)], delete_log = [], new_fails = [],
      calls = []\<rparr>"

section \<open>Facts about the invariant\<close>

subsection \<open>The constructors, fresh addresses and the harness\<close>

lemma ctor_ok_ctx: "ctor_ok sz (\<lambda>cap. cancellation_handler_ctor sz H C cap h args)"
  by (auto simp: ctor_ok_def cancellation_handler_ctor_def split: sum.splits)

lemma ctor_ok_void: "ctor_ok sz (\<lambda>cap. cancellation_handler_void_ctor sz H cap h)"
  by (auto simp: ctor_ok_def cancellation_handler_void_ctor_def split: sum.splits)

lemma fresh_logged: "alloc_ok w \<Longrightarrow> next_addr w \<notin> fst ` set (new_log w)"
  unfolding alloc_ok_def by (meson less_irrefl)

lemma fresh_block: "alloc_ok w \<Longrightarrow> blocks w (next_addr w) = None"
  using fresh_logged[of w] unfolding alloc_ok_def by blast

lemma fresh_deleted: "alloc_ok w \<Longrightarrow> next_addr w \<notin> set (delete_log w)"
  using fresh_logged[of w] unfolding alloc_ok_def by blast

lemma alloc_ok_new:
  assumes "alloc_ok w"
  shows "alloc_ok (w\<lparr>blocks := (blocks w)(next_addr w \<mapsto> n),
               next_addr := Suc (next_addr w),
               new_log := new_log w @ [(next_addr w, n)],
               new_fails := fs\<rparr>)"
  using assms fresh_block[OF assms] fresh_deleted[OF assms] fresh_logged[OF assms]
  unfolding alloc_ok_def
  apply (intro conjI)
  apply (auto simp: less_Suc_eq split: if_splits)
  done

lemma alloc_ok_delete:
  assumes "alloc_ok w" "blocks w a = Some n"
  shows "alloc_ok (w\<lparr>blocks := (blocks w)(a := None), objects := ob,
               delete_log := delete_log w @ [a]\<rparr>)"
  using assms 
  unfolding alloc_ok_def
  apply (intro conjI)
  apply (auto simp: less_Suc_eq split: if_splits)
  done

lemma alloc_ok_frame [simp]:
  "alloc_ok (w\<lparr>signals := sg\<rparr>) = alloc_ok w"
  "alloc_ok (w\<lparr>objects := ob\<rparr>) = alloc_ok w"
  "alloc_ok (w\<lparr>calls := cs\<rparr>) = alloc_ok w"
  "alloc_ok (w\<lparr>new_fails := fs\<rparr>) = alloc_ok w"
  by (simp_all add: alloc_ok_def)

text \<open>The invariant reads neither the allocator's schedule nor the invocation trace.\<close>

lemma alloc_ok_fields:
  assumes "alloc_ok w" "blocks w' = blocks w" "next_addr w' = next_addr w"
    "new_log w' = new_log w" "delete_log w' = delete_log w"
  shows "alloc_ok w'"
  using assms by (simp add: alloc_ok_def)

lemma heap_ok_fields:
  assumes "heap_ok m w" "signals w' = signals w" "blocks w' = blocks w"
    "objects w' = objects w" "next_addr w' = next_addr w" "new_log w' = new_log w"
    "delete_log w' = delete_log w"
  shows "heap_ok m w'"
proof -
  have "alloc_ok w'" using assms by (auto simp: heap_ok_def intro: alloc_ok_fields)
  then show ?thesis
    using assms
    by (simp add: heap_ok_def installed_ok_def records_ok_def owned_ok_def unique_owner_def
        pending_ok_def)
qed

lemma fresh_object: "heap_ok m w \<Longrightarrow> objects w (next_addr w) = None"
  using fresh_block[of w] unfolding heap_ok_def records_ok_def by (cases "objects w (next_addr w)") auto

subsection \<open>The steps of the memory protocol\<close>

text \<open>
  Each step of \<^verbatim>\<open>emplace\<close>: the old record is surrendered and its block is in hand; the
  block in hand is freed; a fresh block is allocated and is in hand; a record is
  constructed in the block in hand; the signal's pointer is set to it.
\<close>

lemma heap_ok_surrender:
  assumes "heap_ok None w" "signals w s = Some (Some a)"
  shows "heap_ok (Some a) (w\<lparr>objects := (objects w)(a := None), signals := (signals w)(s \<mapsto> None)\<rparr>)"
proof -
  let ?w = "w\<lparr>objects := (objects w)(a := None), signals := (signals w)(s \<mapsto> None)\<rparr>"
  from assms have i: "installed_ok None w" and r: "records_ok w" and ow: "owned_ok None w"
    and u: "unique_owner w" and al: "alloc_ok w" by (simp_all add: heap_ok_def)
  have 1: "installed_ok (Some a) ?w"
    using i u assms(2) unfolding installed_ok_def unique_owner_def by auto
  have 2: "records_ok ?w" using r unfolding records_ok_def by auto
  have 3: "owned_ok (Some a) ?w"
    unfolding owned_ok_def
  proof (intro allI impI)
    fix b n assume "blocks ?w b = Some n"
    then obtain s' where s': "signals w s' = Some (Some b)"
      using ow unfolding owned_ok_def by auto
    show "Some a = Some b \<or> (\<exists>t. signals ?w t = Some (Some b))"
    proof (cases "s' = s")
      case True then show ?thesis using s' assms(2) by simp
    next
      case False then show ?thesis using s' by auto
    qed
  qed
  have 4: "unique_owner ?w" using u unfolding unique_owner_def by auto
  have 5: "pending_ok (Some a) ?w" using i r assms(2) unfolding pending_ok_def installed_ok_def records_ok_def
    by fastforce
  show ?thesis using 1 2 3 4 5 al by (simp add: heap_ok_def)
qed

lemma heap_okD:
  assumes "heap_ok m w"
  shows "installed_ok m w" "records_ok w" "owned_ok m w" "unique_owner w" "pending_ok m w"
    "alloc_ok w"
  using assms by (simp_all add: heap_ok_def)

lemma heap_ok_free:
  assumes "heap_ok (Some a) w"
  shows "heap_ok None (w\<lparr>blocks := (blocks w)(a := None), objects := (objects w)(a := None),
               delete_log := delete_log w @ [a]\<rparr>)"
proof -
  let ?w = "w\<lparr>blocks := (blocks w)(a := None), objects := (objects w)(a := None),
               delete_log := delete_log w @ [a]\<rparr>"
  note h = heap_okD[OF assms]
  obtain n where n: "blocks w a = Some n" using h(5) by (auto simp: pending_ok_def)
  have 1: "installed_ok None ?w" using h(1) unfolding installed_ok_def by auto
  have 2: "records_ok ?w" using h(2) unfolding records_ok_def by auto
  have 3: "owned_ok None ?w" using h(3) unfolding owned_ok_def by auto
  have 4: "unique_owner ?w" using h(4) unfolding unique_owner_def by auto
  have 5: "pending_ok None ?w" unfolding pending_ok_def by simp
  have 6: "alloc_ok ?w" using alloc_ok_delete[OF h(6) n] by simp
  show ?thesis using 1 2 3 4 5 6 by (simp add: heap_ok_def)
qed

lemma heap_ok_new:
  assumes "heap_ok None w"
  shows "heap_ok (Some (next_addr w)) (w\<lparr>blocks := (blocks w)(next_addr w \<mapsto> n),
               next_addr := Suc (next_addr w),
               new_log := new_log w @ [(next_addr w, n)],
               new_fails := fs\<rparr>)"
proof -
  let ?w = "w\<lparr>blocks := (blocks w)(next_addr w \<mapsto> n),
               next_addr := Suc (next_addr w),
               new_log := new_log w @ [(next_addr w, n)],
               new_fails := fs\<rparr>"
  note h = heap_okD[OF assms]
  have fb: "blocks w (next_addr w) = None" by (rule fresh_block[OF h(6)])
  have fo: "objects w (next_addr w) = None" by (rule fresh_object[OF assms])
  have 1: "installed_ok (Some (next_addr w)) ?w" using h(1) fo unfolding installed_ok_def
    by fastforce
  have 2: "records_ok ?w" using h(2) fo unfolding records_ok_def by auto
  have 3: "owned_ok (Some (next_addr w)) ?w" using h(3) unfolding owned_ok_def by auto
  have 4: "unique_owner ?w" using h(4) unfolding unique_owner_def by auto
  have 5: "pending_ok (Some (next_addr w)) ?w" unfolding pending_ok_def by simp
  have 6: "alloc_ok ?w" using alloc_ok_new[OF h(6)] by simp
  show ?thesis using 1 2 3 4 5 6 by (simp add: heap_ok_def)
qed

lemma heap_ok_placement:
  assumes "heap_ok (Some a) w" "blocks w a = Some (rec_size r)" "sizeof_self r \<le> rec_size r"
  shows "heap_ok (Some a) (w\<lparr>objects := (objects w)(a \<mapsto> r)\<rparr>)"
proof -
  let ?w = "w\<lparr>objects := (objects w)(a \<mapsto> r)\<rparr>"
  note h = heap_okD[OF assms(1)]
  have 1: "installed_ok (Some a) ?w" using h(1) unfolding installed_ok_def by auto
  have 2: "records_ok ?w" using h(2) assms(2,3) unfolding records_ok_def by auto
  have 3: "owned_ok (Some a) ?w" using h(3) unfolding owned_ok_def by auto
  have 4: "unique_owner ?w" using h(4) unfolding unique_owner_def by auto
  have 5: "pending_ok (Some a) ?w" using h(5) unfolding pending_ok_def by simp
  show ?thesis using 1 2 3 4 5 h(6) by (simp add: heap_ok_def)
qed

lemma heap_ok_install:
  assumes "heap_ok (Some a) w" "objects w a = Some r" "signals w s = Some None"
  shows "heap_ok None (w\<lparr>signals := (signals w)(s \<mapsto> Some a)\<rparr>)"
proof -
  let ?w = "w\<lparr>signals := (signals w)(s \<mapsto> Some a)\<rparr>"
  note h = heap_okD[OF assms(1)]
  have 1: "installed_ok None ?w" using h(1) assms(2) unfolding installed_ok_def by auto
  have 2: "records_ok ?w" using h(2) unfolding records_ok_def by auto
  have 3: "owned_ok None ?w"
    unfolding owned_ok_def
  proof (intro allI impI)
    fix b n assume "blocks ?w b = Some n"
    then have "Some a = Some b \<or> (\<exists>t. signals w t = Some (Some b))"
      using h(3) unfolding owned_ok_def by auto
    then show "None = Some b \<or> (\<exists>t. signals ?w t = Some (Some b))"
    proof
      assume "Some a = Some b" then show ?thesis by auto
    next
      assume "\<exists>t. signals w t = Some (Some b)"
      then obtain t where t: "signals w t = Some (Some b)" by blast
      then have "t \<noteq> s" using assms(3) by auto
      then show ?thesis using t by auto
    qed
  qed
  have 4: "unique_owner ?w" using h(4) h(1) unfolding unique_owner_def installed_ok_def
    by (auto split: if_splits)
  have 5: "pending_ok None ?w" unfolding pending_ok_def by simp
  show ?thesis using 1 2 3 4 5 h(6) by (simp add: heap_ok_def)
qed

lemma heap_ok_cell_null:
  assumes "heap_ok None w" "\<forall>a. signals w s \<noteq> Some (Some a)" "\<forall>b. v \<noteq> Some (Some b)"
  shows "heap_ok None (w\<lparr>signals := (signals w)(s := v)\<rparr>)"
proof -
  let ?w = "w\<lparr>signals := (signals w)(s := v)\<rparr>"
  note h = heap_okD[OF assms(1)]
  have 1: "installed_ok None ?w" using h(1) assms(3) unfolding installed_ok_def by auto
  have 2: "records_ok ?w" using h(2) unfolding records_ok_def by auto
  have 3: "owned_ok None ?w"
    unfolding owned_ok_def
  proof (intro allI impI)
    fix b n assume "blocks ?w b = Some n"
    then obtain t where t: "signals w t = Some (Some b)"
      using h(3) unfolding owned_ok_def by auto
    then have "t \<noteq> s" using assms(2) by auto
    then show "None = Some b \<or> (\<exists>t. signals ?w t = Some (Some b))" using t by auto
  qed
  have 4: "unique_owner ?w" using h(4) assms(3) unfolding unique_owner_def
    by (auto split: if_splits)
  have 5: "pending_ok None ?w" unfolding pending_ok_def by simp
  show ?thesis using 1 2 3 4 5 h(6) by (simp add: heap_ok_def)
qed

subsection \<open>What emplace computes, case by case\<close>

lemma operator_new_if:
  "operator_new n w =
     (if new_succeeds w then
        Returns (next_addr w)
          (w\<lparr>blocks := (blocks w)(next_addr w \<mapsto> n),
             next_addr := Suc (next_addr w),
             new_log := new_log w @ [(next_addr w, n)],
             new_fails := tl (new_fails w)\<rparr>)
      else Throws Bad_alloc (w\<lparr>new_fails := tl (new_fails w)\<rparr>))"
  by (simp add: operator_new_def new_succeeds_def split: list.splits bool.splits)

lemma wf_record_block:
  assumes "wf w" "objects w a = Some r"
  shows "blocks w a = Some (rec_size r)" "sizeof_self r \<le> rec_size r"
  using assms by (auto simp: wf_def heap_ok_def records_ok_def)

lemma wf_installed:
  assumes "wf w" "signals w s = Some (Some a)"
  shows "\<exists>r. objects w a = Some r"
  using assms by (auto simp: wf_def heap_ok_def installed_ok_def)

lemma wf_fresh:
  assumes "wf w"
  shows "blocks w (next_addr w) = None" "objects w (next_addr w) = None"
    "next_addr w \<notin> set (delete_log w)"
  using assms fresh_block[of w] fresh_object[of None w] fresh_deleted[of w]
  by (auto simp: wf_def heap_ok_def)

lemmas emplace_defs = emplace_with_def create_with_def slot_def destroy_def placement_new_def
  operator_new_if operator_delete_def

lemma emplace_with_reuse_returns:
  assumes "wf w" "signals w s = Some (Some a)" "objects w a = Some r" "sz \<le> rec_size r"
    "ctor (rec_size r) = Inr r'"
  shows "emplace_with (create_with sz ctor) (slot s) w =
     Returns a (w\<lparr>objects := (objects w)(a \<mapsto> r')\<rparr>)"
proof -
  have "(signals w)(s \<mapsto> Some a) = signals w" using assms(2) by (simp add: fun_upd_idem)
  then show ?thesis
    using assms wf_record_block[OF assms(1,3)] by (simp add: emplace_defs)
qed

lemma emplace_with_reuse_throws:
  assumes "wf w" "signals w s = Some (Some a)" "objects w a = Some r" "sz \<le> rec_size r"
    "ctor (rec_size r) = Inl e"
  shows "emplace_with (create_with sz ctor) (slot s) w =
     Throws e (w\<lparr>signals := (signals w)(s \<mapsto> None), blocks := (blocks w)(a := None),
                 objects := (objects w)(a := None), delete_log := delete_log w @ [a]\<rparr>)"
  using assms wf_record_block[OF assms(1,3)] by (simp add: emplace_defs)

lemma emplace_with_grow_bad_alloc:
  assumes "wf w" "signals w s = Some (Some a)" "objects w a = Some r" "rec_size r < sz"
    "\<not> new_succeeds w"
  shows "emplace_with (create_with sz ctor) (slot s) w =
     Throws Bad_alloc
       (w\<lparr>signals := (signals w)(s \<mapsto> None), blocks := (blocks w)(a := None),
          objects := (objects w)(a := None), delete_log := delete_log w @ [a],
          new_fails := tl (new_fails w)\<rparr>)"
  using assms wf_record_block[OF assms(1,3)] by (simp add: emplace_defs new_succeeds_def)

lemma emplace_with_grow_returns:
  assumes "wf w" "signals w s = Some (Some a)" "objects w a = Some r" "rec_size r < sz"
    "new_succeeds w" "ctor sz = Inr r'"
  shows "emplace_with (create_with sz ctor) (slot s) w =
     Returns (next_addr w)
       (w\<lparr>signals := (signals w)(s \<mapsto> Some (next_addr w)),
          blocks := (blocks w)(a := None, next_addr w \<mapsto> sz),
          objects := (objects w)(a := None, next_addr w \<mapsto> r'),
          next_addr := Suc (next_addr w),
          new_log := new_log w @ [(next_addr w, sz)],
          delete_log := delete_log w @ [a],
          new_fails := tl (new_fails w)\<rparr>)"
  using assms wf_record_block[OF assms(1,3)] wf_fresh[OF assms(1)]
  by (simp add: emplace_defs new_succeeds_def)

lemma emplace_with_grow_throws:
  assumes "wf w" "signals w s = Some (Some a)" "objects w a = Some r" "rec_size r < sz"
    "new_succeeds w" "ctor sz = Inl e"
  shows "emplace_with (create_with sz ctor) (slot s) w =
     Throws e
       (w\<lparr>signals := (signals w)(s \<mapsto> None),
          blocks := (blocks w)(a := None),
          objects := (objects w)(a := None),
          next_addr := Suc (next_addr w),
          new_log := new_log w @ [(next_addr w, sz)],
          delete_log := delete_log w @ [a, next_addr w],
          new_fails := tl (new_fails w)\<rparr>)"
proof -
  have "a \<noteq> next_addr w" using wf_record_block[OF assms(1,3)] wf_fresh[OF assms(1)] by auto
  then have "(blocks w)(a := None, next_addr w := None) = (blocks w)(a := None)"
       "(objects w)(a := None, next_addr w := None) = (objects w)(a := None)"
    using wf_fresh[OF assms(1)] by auto
  then show ?thesis
  using assms wf_record_block[OF assms(1,3)] wf_fresh[OF assms(1)]
  by (simp add: emplace_defs new_succeeds_def)
qed

lemma emplace_with_first_bad_alloc:
  assumes "signals w s = Some None" "0 < sz" "\<not> new_succeeds w"
  shows "emplace_with (create_with sz ctor) (slot s) w =
     Throws Bad_alloc (w\<lparr>new_fails := tl (new_fails w)\<rparr>)"
  using assms by (simp add: emplace_defs new_succeeds_def)

lemma emplace_with_first_returns:
  assumes "wf w" "signals w s = Some None" "0 < sz" "new_succeeds w" "ctor sz = Inr r'"
  shows "emplace_with (create_with sz ctor) (slot s) w =
     Returns (next_addr w)
       (w\<lparr>signals := (signals w)(s \<mapsto> Some (next_addr w)),
          blocks := (blocks w)(next_addr w \<mapsto> sz),
          objects := (objects w)(next_addr w \<mapsto> r'),
          next_addr := Suc (next_addr w),
          new_log := new_log w @ [(next_addr w, sz)],
          new_fails := tl (new_fails w)\<rparr>)"
  using assms wf_fresh[OF assms(1)]
  by (simp add: emplace_defs new_succeeds_def)

lemma emplace_with_first_throws:
  assumes "wf w" "signals w s = Some None" "0 < sz" "new_succeeds w" "ctor sz = Inl e"
  shows "emplace_with (create_with sz ctor) (slot s) w =
     Throws e
       (w\<lparr>next_addr := Suc (next_addr w),
          new_log := new_log w @ [(next_addr w, sz)],
          delete_log := delete_log w @ [next_addr w],
          new_fails := tl (new_fails w)\<rparr>)"
proof -
  have "(blocks w)(next_addr w := None) = blocks w"
       "(objects w)(next_addr w := None) = objects w"
    using wf_fresh[OF assms(1)] by auto
  then show ?thesis
    using assms wf_fresh[OF assms(1)]
    by (simp add: emplace_defs new_succeeds_def)
qed

subsection \<open>The invariant in the resulting states\<close>

lemma wf_reuse:
  assumes "wf w" "signals w s = Some (Some a)" "objects w a = Some r"
    "rec_size r' = rec_size r" "sizeof_self r' \<le> rec_size r'"
  shows "wf (w\<lparr>objects := (objects w)(a \<mapsto> r')\<rparr>)"
proof -
  let ?w1 = "w\<lparr>objects := (objects w)(a := None), signals := (signals w)(s \<mapsto> None)\<rparr>"
  let ?w2 = "?w1\<lparr>objects := (objects ?w1)(a \<mapsto> r')\<rparr>"
  have b: "blocks w a = Some (rec_size r)" using wf_record_block[OF assms(1,3)] by simp
  have 1: "heap_ok (Some a) ?w1" using heap_ok_surrender assms(1,2) by (simp add: wf_def)
  have 2: "heap_ok (Some a) ?w2"
    by (rule heap_ok_placement[OF 1]) (use b assms(4,5) in simp_all)
  have 3: "heap_ok None (?w2\<lparr>signals := (signals ?w2)(s \<mapsto> Some a)\<rparr>)"
    by (rule heap_ok_install[OF 2, where r = r']) simp_all
  have "(signals w)(s \<mapsto> Some a) = signals w" using assms(2) by (simp add: fun_upd_idem)
  then show ?thesis unfolding wf_def by (intro heap_ok_fields[OF 3]) simp_all
qed

lemma wf_released:
  assumes "wf w" "signals w s = Some (Some a)"
  shows "wf (w\<lparr>signals := (signals w)(s \<mapsto> None), blocks := (blocks w)(a := None),
                 objects := (objects w)(a := None), delete_log := delete_log w @ [a]\<rparr>)"
proof -
  let ?w1 = "w\<lparr>objects := (objects w)(a := None), signals := (signals w)(s \<mapsto> None)\<rparr>"
  have 1: "heap_ok (Some a) ?w1" using heap_ok_surrender assms(1,2) by (simp add: wf_def)
  show ?thesis unfolding wf_def by (intro heap_ok_fields[OF heap_ok_free[OF 1]]) simp_all
qed

lemma wf_grow:
  assumes "wf w" "signals w s = Some (Some a)" 
    "rec_size r' = sz" "sizeof_self r' \<le> sz"
  shows "wf (w\<lparr>signals := (signals w)(s \<mapsto> Some (next_addr w)),
          blocks := (blocks w)(a := None, next_addr w \<mapsto> sz),
          objects := (objects w)(a := None, next_addr w \<mapsto> r'),
          next_addr := Suc (next_addr w),
          new_log := new_log w @ [(next_addr w, sz)],
          delete_log := delete_log w @ [a],
          new_fails := fs\<rparr>)"
proof -
  let ?w1 = "w\<lparr>signals := (signals w)(s \<mapsto> None), blocks := (blocks w)(a := None),
                 objects := (objects w)(a := None), delete_log := delete_log w @ [a]\<rparr>"
  let ?w2 = "?w1\<lparr>blocks := (blocks ?w1)(next_addr ?w1 \<mapsto> sz),
               next_addr := Suc (next_addr ?w1),
               new_log := new_log ?w1 @ [(next_addr ?w1, sz)],
               new_fails := fs\<rparr>"
  let ?w3 = "?w2\<lparr>objects := (objects ?w2)(next_addr w \<mapsto> r')\<rparr>"
  have 1: "heap_ok None ?w1" using wf_released[OF assms(1,2)] by (simp add: wf_def)
  have 2: "heap_ok (Some (next_addr w)) ?w2" using heap_ok_new[OF 1, where n = sz and fs = fs] by simp
  have 3: "heap_ok (Some (next_addr w)) ?w3"
    by (rule heap_ok_placement[OF 2]) (use assms(3,4) in simp_all)
  have 4: "heap_ok None (?w3\<lparr>signals := (signals ?w3)(s \<mapsto> Some (next_addr w))\<rparr>)"
    by (rule heap_ok_install[OF 3, where r = r']) simp_all
  show ?thesis unfolding wf_def by (intro heap_ok_fields[OF 4]) simp_all
qed

lemma wf_grow_thrown:
  assumes "wf w" "signals w s = Some (Some a)"
  shows "wf (w\<lparr>signals := (signals w)(s \<mapsto> None),
          blocks := (blocks w)(a := None),
          objects := (objects w)(a := None),
          next_addr := Suc (next_addr w),
          new_log := new_log w @ [(next_addr w, sz)],
          delete_log := delete_log w @ [a, next_addr w],
          new_fails := fs\<rparr>)"
proof -
  let ?w1 = "w\<lparr>signals := (signals w)(s \<mapsto> None), blocks := (blocks w)(a := None),
                 objects := (objects w)(a := None), delete_log := delete_log w @ [a]\<rparr>"
  let ?w2 = "?w1\<lparr>blocks := (blocks ?w1)(next_addr ?w1 \<mapsto> sz),
               next_addr := Suc (next_addr ?w1),
               new_log := new_log ?w1 @ [(next_addr ?w1, sz)],
               new_fails := fs\<rparr>"
  have 1: "heap_ok None ?w1" using wf_released[OF assms(1,2)] by (simp add: wf_def)
  have 2: "heap_ok (Some (next_addr w)) ?w2" using heap_ok_new[OF 1, where n = sz and fs = fs] by simp
  have n: "a \<noteq> next_addr w" using wf_installed[OF assms] wf_fresh[OF assms(1)] by auto
  then have e: "(blocks w)(a := None, next_addr w := None) = (blocks w)(a := None)"
       "(objects w)(a := None, next_addr w := None) = (objects w)(a := None)"
    using wf_fresh[OF assms(1)] by auto
  show ?thesis unfolding wf_def by (intro heap_ok_fields[OF heap_ok_free[OF 2]]) (use e in simp_all)
qed

lemma wf_first:
  assumes "wf w" "signals w s = Some None" "rec_size r' = sz" "sizeof_self r' \<le> sz"
  shows "wf (w\<lparr>signals := (signals w)(s \<mapsto> Some (next_addr w)),
          blocks := (blocks w)(next_addr w \<mapsto> sz),
          objects := (objects w)(next_addr w \<mapsto> r'),
          next_addr := Suc (next_addr w),
          new_log := new_log w @ [(next_addr w, sz)],
          new_fails := fs\<rparr>)"
proof -
  let ?w2 = "w\<lparr>blocks := (blocks w)(next_addr w \<mapsto> sz),
               next_addr := Suc (next_addr w),
               new_log := new_log w @ [(next_addr w, sz)],
               new_fails := fs\<rparr>"
  let ?w3 = "?w2\<lparr>objects := (objects ?w2)(next_addr w \<mapsto> r')\<rparr>"
  have 2: "heap_ok (Some (next_addr w)) ?w2" using heap_ok_new[where w = w and n = sz and fs = fs] assms(1)
    by (simp add: wf_def)
  have 3: "heap_ok (Some (next_addr w)) ?w3"
    by (rule heap_ok_placement[OF 2]) (use assms(3,4) in simp_all)
  have 4: "heap_ok None (?w3\<lparr>signals := (signals ?w3)(s \<mapsto> Some (next_addr w))\<rparr>)"
    by (rule heap_ok_install[OF 3, where r = r']) (use assms(2) in simp_all)
  show ?thesis unfolding wf_def by (intro heap_ok_fields[OF 4]) simp_all
qed

lemma wf_first_thrown:
  assumes "wf w"
  shows "wf (w\<lparr>next_addr := Suc (next_addr w),
          new_log := new_log w @ [(next_addr w, sz)],
          delete_log := delete_log w @ [next_addr w],
          new_fails := fs\<rparr>)"
proof -
  let ?w2 = "w\<lparr>blocks := (blocks w)(next_addr w \<mapsto> sz),
               next_addr := Suc (next_addr w),
               new_log := new_log w @ [(next_addr w, sz)],
               new_fails := fs\<rparr>"
  have 2: "heap_ok (Some (next_addr w)) ?w2" using heap_ok_new[where w = w and n = sz and fs = fs] assms(1)
    by (simp add: wf_def)
  have e: "(blocks w)(next_addr w := None) = blocks w"
       "(objects w)(next_addr w := None) = objects w"
    using wf_fresh[OF assms(1)] by auto
  show ?thesis unfolding wf_def by (intro heap_ok_fields[OF heap_ok_free[OF 2]]) (use e in simp_all)
qed

lemma wf_fields:
  assumes "wf w" "signals w' = signals w" "blocks w' = blocks w"
    "objects w' = objects w" "next_addr w' = next_addr w" "new_log w' = new_log w"
    "delete_log w' = delete_log w"
  shows "wf w'"
  using assms unfolding wf_def by (rule heap_ok_fields)

subsection \<open>What clear, the destructor and emit compute\<close>

lemma clear_installed:
  assumes "wf w" "signals w s = Some (Some a)"
  shows "clear (slot s) w =
     Returns () (w\<lparr>signals := (signals w)(s \<mapsto> None), blocks := (blocks w)(a := None),
                 objects := (objects w)(a := None), delete_log := delete_log w @ [a]\<rparr>)"
proof -
  obtain r where r: "objects w a = Some r" using wf_installed[OF assms] by blast
  show ?thesis using assms r wf_record_block[OF assms(1) r]
    by (simp add: clear_def slot_def destroy_def operator_delete_def)
qed

lemma clear_no_handler:
  assumes "signals w s = Some None"
  shows "clear (slot s) w = Returns () w"
  using assms by (simp add: clear_def slot_def)

lemma dtor_installed:
  assumes "wf w" "signals w s = Some (Some a)"
  shows "cancellation_signal_dtor s w =
     Returns () (w\<lparr>signals := (signals w)(s := None), blocks := (blocks w)(a := None),
                 objects := (objects w)(a := None), delete_log := delete_log w @ [a]\<rparr>)"
proof -
  obtain r where r: "objects w a = Some r" using wf_installed[OF assms] by blast
  show ?thesis using assms r wf_record_block[OF assms(1) r]
    by (simp add: cancellation_signal_dtor_def destroy_def operator_delete_def)
qed

lemma dtor_no_handler:
  assumes "signals w s = Some None"
  shows "cancellation_signal_dtor s w = Returns () (w\<lparr>signals := (signals w)(s := None)\<rparr>)"
  using assms by (simp add: cancellation_signal_dtor_def)

lemma wf_signal_gone:
  assumes "wf w" "signals w s = Some (Some a)"
  shows "wf (w\<lparr>signals := (signals w)(s := None), blocks := (blocks w)(a := None),
                 objects := (objects w)(a := None), delete_log := delete_log w @ [a]\<rparr>)"
proof -
  let ?w1 = "w\<lparr>signals := (signals w)(s \<mapsto> None), blocks := (blocks w)(a := None),
                 objects := (objects w)(a := None), delete_log := delete_log w @ [a]\<rparr>"
  have 1: "heap_ok None ?w1" using wf_released[OF assms] by (simp add: wf_def)
  have 2: "heap_ok None (?w1\<lparr>signals := (signals ?w1)(s := None)\<rparr>)"
    by (rule heap_ok_cell_null[OF 1]) simp_all
  show ?thesis unfolding wf_def by (intro heap_ok_fields[OF 2]) simp_all
qed

lemma wf_cell:
  assumes "wf w" "\<forall>a. signals w s \<noteq> Some (Some a)" "\<forall>b. v \<noteq> Some (Some b)"
  shows "wf (w\<lparr>signals := (signals w)(s := v)\<rparr>)"
  using assms heap_ok_cell_null unfolding wf_def by blast

lemma call_record:
  assumes "objects w a = Some r"
  shows "call a w = Returns () (w\<lparr>calls := calls w @ [invocation_of a r]\<rparr>)"
  using assms by (cases r) (simp_all add: call_def)

lemma emit_installed:
  assumes "signals w s = Some (Some a)" "objects w a = Some r"
  shows "emit s w = Returns () (w\<lparr>calls := calls w @ [invocation_of a r]\<rparr>)"
  using assms call_record[OF assms(2)] by (simp add: emit_def)

lemma wf_initial: "wf (initial_world\<lparr>new_fails := fs\<rparr>)"
  by (simp add: wf_def heap_ok_def installed_ok_def records_ok_def owned_ok_def
      unique_owner_def pending_ok_def alloc_ok_def initial_world_def)

subsection \<open>Every call of the interface keeps the invariant\<close>

lemma emplace_with_wf:
  assumes "wf w" "ctor_ok sz ctor"
    "continues (emplace_with (create_with sz ctor) sl w) = Some w'"
  shows "wf w'"
proof (cases "slot_handler sl")
  case None
  then show ?thesis using assms(3) by (simp add: emplace_with_def)
next
  case (Some s)
  then have sl: "sl = slot s" by (cases sl) (simp add: slot_def)
  show ?thesis
  proof (cases "signals w s")
    case None
    then show ?thesis using assms(3) Some by (simp add: emplace_with_def)
  next
    case p: (Some p)
    show ?thesis
    proof (cases p)
      case None
      note sn = p[unfolded None]
      show ?thesis
      proof (cases "0 < sz")
        case False
        then show ?thesis using assms(3) sn Some
          by (simp add: emplace_with_def create_with_def placement_new_def)
      next
        case True
        show ?thesis
        proof (cases "new_succeeds w")
          case False
          then show ?thesis
            using assms(1,3) emplace_with_first_bad_alloc[OF sn True False, of ctor]
            by (auto simp: sl intro: wf_fields)
        next
          case ns: True
          show ?thesis
          proof (cases "ctor sz")
            case (Inl e)
            then show ?thesis
              using assms(1,3) emplace_with_first_throws[where ctor = ctor, OF assms(1) sn True ns Inl]
                wf_first_thrown[OF assms(1)]
              by (auto simp: sl)
          next
            case (Inr r')
            then have "rec_size r' = sz" "sizeof_self r' \<le> sz"
              using assms(2) by (auto simp: ctor_ok_def)
            then show ?thesis
              using assms(1,3) emplace_with_first_returns[where ctor = ctor, OF assms(1) sn True ns Inr]
                wf_first[OF assms(1) sn]
              by (auto simp: sl)
          qed
        qed
      qed
    next
      case (Some a)
      note sa = p[unfolded Some]
      obtain r where r: "objects w a = Some r" using wf_installed[OF assms(1) sa] by blast
      show ?thesis
      proof (cases "sz \<le> rec_size r")
        case le: True
        show ?thesis
        proof (cases "ctor (rec_size r)")
          case (Inl e)
          then show ?thesis
            using assms(3) emplace_with_reuse_throws[where ctor = ctor, OF assms(1) sa r le Inl]
              wf_released[OF assms(1) sa]
            by (auto simp: sl)
        next
          case (Inr r')
          then have "rec_size r' = rec_size r" "sizeof_self r' \<le> rec_size r'"
            using assms(2) le by (auto simp: ctor_ok_def)
          then show ?thesis
            using assms(3) emplace_with_reuse_returns[where ctor = ctor, OF assms(1) sa r le Inr]
              wf_reuse[OF assms(1) sa r]
            by (auto simp: sl)
        qed
      next
        case False
        then have gt: "rec_size r < sz" by simp
        show ?thesis
        proof (cases "new_succeeds w")
          case False
          have "wf (w\<lparr>signals := (signals w)(s \<mapsto> None), blocks := (blocks w)(a := None),
                 objects := (objects w)(a := None), delete_log := delete_log w @ [a],
                 new_fails := tl (new_fails w)\<rparr>)"
            by (rule wf_fields[OF wf_released[OF assms(1) sa]]) simp_all
          then show ?thesis
            using assms(3) emplace_with_grow_bad_alloc[OF assms(1) sa r gt False, of ctor]
            by (auto simp: sl)
        next
          case ns: True
          show ?thesis
          proof (cases "ctor sz")
            case (Inl e)
            then show ?thesis
              using assms(3) emplace_with_grow_throws[where ctor = ctor, OF assms(1) sa r gt ns Inl]
                wf_grow_thrown[OF assms(1) sa]
              by (auto simp: sl)
          next
            case (Inr r')
            then have "rec_size r' = sz" "sizeof_self r' \<le> sz"
              using assms(2) by (auto simp: ctor_ok_def)
            then show ?thesis
              using assms(3) emplace_with_grow_returns[where ctor = ctor, OF assms(1) sa r gt ns Inr]
                wf_grow[OF assms(1) sa]
              by (auto simp: sl)
          qed
        qed
      qed
    qed
  qed
qed

lemma continues_and_then_Returns:
  "continues (and_then x (\<lambda>r s. Returns (g r) s)) = continues x"
  by (cases x) simp_all

lemma create_eq:
  "(\<lambda>mem. create sz Handler Context mem handler args) =
   create_with sz (\<lambda>cap. cancellation_handler_ctor sz Handler Context cap handler args)"
  by (intro ext) (simp add: create_def)

lemma create_void_eq:
  "(\<lambda>mem. create_void sz Handler mem handler) =
   create_with sz (\<lambda>cap. cancellation_handler_void_ctor sz Handler cap handler)"
  by (intro ext) (simp add: create_void_def)

lemma emplace_wf:
  assumes "wf w" "continues (emplace sz Handler Context sl handler args w) = Some w'"
  shows "wf w'"
  using assms emplace_with_wf[OF assms(1) ctor_ok_ctx]
  by (simp add: emplace_def create_eq continues_and_then_Returns)

lemma emplace_void_wf:
  assumes "wf w" "continues (emplace_void sz Handler sl handler w) = Some w'"
  shows "wf w'"
  using assms emplace_with_wf[OF assms(1) ctor_ok_void]
  by (simp add: emplace_void_def create_void_eq continues_and_then_Returns)

lemma clear_wf:
  assumes "wf w" "continues (clear sl w) = Some w'"
  shows "wf w'"
proof (cases "slot_handler sl")
  case None
  then show ?thesis using assms by (simp add: clear_def)
next
  case (Some s)
  then have sl: "sl = slot s" by (cases sl) (simp add: slot_def)
  show ?thesis
  proof (cases "signals w s")
    case None
    then show ?thesis using assms(2) Some by (simp add: clear_def)
  next
    case p: (Some p)
    show ?thesis
    proof (cases p)
      case None
      then show ?thesis using assms p clear_no_handler[of w s] by (simp add: sl)
    next
      case (Some a)
      then show ?thesis
        using assms p clear_installed[OF assms(1), of s a] wf_released[OF assms(1), of s a]
        by (auto simp: sl)
    qed
  qed
qed

lemma dtor_wf:
  assumes "wf w" "continues (cancellation_signal_dtor s w) = Some w'"
  shows "wf w'"
proof (cases "signals w s")
  case None
  then show ?thesis using assms(2) by (simp add: cancellation_signal_dtor_def)
next
  case p: (Some p)
  show ?thesis
  proof (cases p)
    case None
    then show ?thesis
      using assms p dtor_no_handler[of w s] wf_cell[OF assms(1), of s None]
      by auto
  next
    case (Some a)
    then show ?thesis
      using assms p dtor_installed[OF assms(1), of s a] wf_signal_gone[OF assms(1), of s a]
      by auto
  qed
qed

lemma ctor_signal_wf:
  assumes "wf w" "continues (cancellation_signal s w) = Some w'"
  shows "wf w'"
  using assms wf_cell[OF assms(1), of s "Some None"]
  by (auto simp: cancellation_signal_def split: option.splits)

lemma emit_wf:
  assumes "wf w" "continues (emit s w) = Some w'"
  shows "wf w'"
proof (cases "signals w s")
  case None
  then show ?thesis using assms(2) by (simp add: emit_def)
next
  case p: (Some p)
  show ?thesis
  proof (cases p)
    case None
    then show ?thesis using assms p by (simp add: emit_def)
  next
    case (Some a)
    obtain r where r: "objects w a = Some r"
      using wf_installed[OF assms(1)] p Some by blast
    have "w' = w\<lparr>calls := calls w @ [invocation_of a r]\<rparr>"
      using assms(2) emit_installed[OF _ r, of s] p Some by simp
    then show ?thesis using assms(1) by (auto intro: wf_fields)
  qed
qed

lemma exec_wf:
  assumes "wf w" "continues (exec op w) = Some w'"
  shows "wf w'"
proof (cases op)
  case (Construct_signal s)
  then show ?thesis using assms ctor_signal_wf by auto
next
  case (Destroy_signal s)
  then show ?thesis using assms dtor_wf by auto
next
  case (Emit s)
  then show ?thesis using assms emit_wf by auto
next
  case (Emplace sz Handler Context sl handler args)
  then show ?thesis
    using assms emplace_wf[OF assms(1), of sz Handler Context sl handler args w']
    by (simp add: continues_and_then_Returns)
next
  case (Emplace_void sz Handler sl handler)
  then show ?thesis using assms emplace_void_wf by auto
next
  case (Clear sl)
  then show ?thesis using assms clear_wf by auto
qed

lemma reachable_wf: "reachable w \<Longrightarrow> wf w"
proof (induction rule: reachable.induct)
  case (start fs)
  show ?case by (rule wf_initial)
next
  case (step w op w')
  then show ?case using exec_wf by blast
qed

subsection \<open>The allocation log only grows, and a block keeps its size\<close>




lemma wf_alloc_ok: "wf w \<Longrightarrow> alloc_ok w"
  by (simp add: wf_def heap_ok_def)




section \<open>The states of the examples\<close>

text \<open>The definitions that a concrete run unfolds, and the invariant in the two example states.\<close>

lemmas run_defs = emplace_def emplace_void_def emplace_with_def create_def create_void_def
  create_with_def cancellation_handler_ctor_def cancellation_handler_void_ctor_def
  placement_new_def operator_new_def operator_delete_def destroy_def call_def emit_def
  clear_def cancellation_signal_def cancellation_signal_dtor_def slot_def context_member_def
  has_handler_def is_connected_def

lemma wf_world_empty_signal: "wf world_empty_signal"
  by (simp add: wf_def heap_ok_def installed_ok_def records_ok_def owned_ok_def
      unique_owner_def pending_ok_def alloc_ok_def initial_world_def world_empty_signal_def)

lemma wf_world_installed: "wf world_installed"
  by (auto simp: wf_def heap_ok_def installed_ok_def records_ok_def owned_ok_def
      unique_owner_def pending_ok_def alloc_ok_def world_installed_def split: if_splits)

text \<open>A program reaches the states with a handler.\<close>

lemma reachable_world_installed: "reachable world_installed"
proof -
  have 0: "reachable (initial_world\<lparr>new_fails := []\<rparr> :: (nat, nat) world)"
    by (rule reachable.start)
  have 1: "continues (exec (Construct_signal 0 :: (nat, nat, nat, nat) operation)
      (initial_world\<lparr>new_fails := []\<rparr>)) = Some world_empty_signal"
    by (simp add: cancellation_signal_def initial_world_def world_empty_signal_def)
  have 2: "continues (exec (Emplace 64 Inr Inr (slot 0) 7 9 :: (nat, nat, nat, nat) operation)
      world_empty_signal) = Some world_installed"
    by (simp add: run_defs world_empty_signal_def world_installed_def initial_world_def)
  show ?thesis using reachable.step[OF reachable.step[OF 0 1] 2] .
qed

lemma reachable_world_two_installed: "reachable world_two_installed"
proof -
  let ?w = "world_installed\<lparr>signals := [0 \<mapsto> Some 0, 1 \<mapsto> None]\<rparr>"
  have 1: "continues (exec (Construct_signal 1 :: (nat, nat, nat, nat) operation)
      world_installed) = Some ?w"
    by (simp add: cancellation_signal_def world_installed_def)
  have 2: "continues (exec (Emplace 64 Inr Inr (slot 1) 7 9 :: (nat, nat, nat, nat) operation)
      ?w) = Some world_two_installed"
    by (simp add: run_defs world_installed_def world_two_installed_def)
  show ?thesis
    using reachable.step[OF reachable.step[OF reachable_world_installed 1] 2] .
qed

section \<open>Installing a handler, then emitting\<close>

lemma emplace_with_Returns:
  assumes "emplace_with (create_with sz ctor) (slot s) w = Returns a w'"
  shows "\<exists>r n. ctor n = Inr r \<and> objects w' a = Some r \<and> signals w' s = Some (Some a)
           \<and> calls w' = calls w"
  using assms
  by (auto simp: emplace_with_def create_with_def destroy_def placement_new_def slot_def
      operator_new_if operator_delete_def
      split: option.splits if_splits sum.splits)

lemma ctor_Inr:
  assumes "cancellation_handler_ctor sz Handler Context n handler args = Inr r"
  shows "\<exists>h c. Handler handler = Inr h \<and> Context args = Inr c \<and> r = With_context h c n sz"
  using assms by (auto simp: cancellation_handler_ctor_def split: sum.splits)

lemma emplace_Returns:
  assumes "emplace sz Handler Context sl handler args w = Returns r w'"
  shows "\<exists>a. emplace_with (create_with sz
            (\<lambda>cap. cancellation_handler_ctor sz Handler Context cap handler args)) sl w
          = Returns a w' \<and> r = Context_of a"
  using assms
  by (cases "emplace_with (create_with sz
            (\<lambda>cap. cancellation_handler_ctor sz Handler Context cap handler args)) sl w")
    (simp_all add: emplace_def create_eq context_member_def)

text \<open>
  C1. When \<^verbatim>\<open>s.emplace(H, cArgs...)\<close> on the slot of a signal returns the reference r,
  the signal's record holds the handler built from H and the context built from cArgs,
  r refers to that context, and the installation invoked no handler. One \<^verbatim>\<open>emit()\<close>
  then returns with exactly one more entry in the invocation trace: the call of that
  handler with the reference r.
\<close>

theorem C1_emplace_then_emit:
  assumes "emplace sz Handler Context (slot s) handler args w = Returns r w'"
  shows "\<exists>a h c n.
           r = Context_of a
         \<and> Handler handler = Inr h \<and> Context args = Inr c
         \<and> signals w' s = Some (Some a)
         \<and> objects w' a = Some (With_context h c n sz)
         \<and> calls w' = calls w
         \<and> emit s w' = Returns () (w'\<lparr>calls := calls w' @ [Call_with_context h r]\<rparr>)"
proof -
  obtain a where a: "emplace_with (create_with sz
      (\<lambda>cap. cancellation_handler_ctor sz Handler Context cap handler args)) (slot s) w
      = Returns a w'" and r: "r = Context_of a"
    using emplace_Returns[OF assms] by blast
  obtain rc n where rc: "cancellation_handler_ctor sz Handler Context n handler args = Inr rc"
    and ob: "objects w' a = Some rc" and sg: "signals w' s = Some (Some a)"
    and cs: "calls w' = calls w"
    using emplace_with_Returns[OF a] by blast
  obtain h c where hc: "Handler handler = Inr h" "Context args = Inr c"
    "rc = With_context h c n sz"
    using ctor_Inr[OF rc] by blast
  have "emit s w' = Returns () (w'\<lparr>calls := calls w' @ [Call_with_context h r]\<rparr>)"
    using emit_installed[OF sg ob] hc(3) r by simp
  then show ?thesis using r hc ob sg cs by blast
qed

theorem C1_emplace_then_emit_witness:
  "emplace 64 Inr Inr (slot 0) 7 9 world_empty_signal = Returns (Context_of 0) world_installed
   \<and> objects world_installed 0 = Some (With_context 7 9 64 64)
   \<and> emit 0 world_installed =
       Returns () (world_installed\<lparr>calls := [Call_with_context 7 (Context_of 0)]\<rparr>)"
proof -
  have e: "emplace 64 Inr Inr (slot 0) 7 9 world_empty_signal
      = Returns (Context_of 0) world_installed"
    by (simp add: run_defs world_empty_signal_def world_installed_def initial_world_def)
  have c: "calls world_installed = []"
    and ob: "objects world_installed 0 = Some (With_context 7 9 64 64)"
    by (simp_all add: world_installed_def)
  show ?thesis using e c ob C1_emplace_then_emit [OF e] by auto
qed

section \<open>Allocator calls of a replacing emplace\<close>

lemma wf_not_deleted:
  assumes "wf w" "blocks w a = Some n"
  shows "a \<notin> set (delete_log w)"
  using wf_alloc_ok[OF assms(1)] assms(2) by (auto simp: alloc_ok_def)

text \<open>What a reusing and a reallocating \<^verbatim>\<open>emplace\<close> leave, for any realization.\<close>

lemma emplace_with_reuse_summary:
  assumes "wf w" "signals w s = Some (Some a)" "objects w a = Some r" "sz \<le> rec_size r"
    "ctor (rec_size r) = Inr r'" "ctor_ok sz ctor"
  shows "\<exists>w'. emplace_with (create_with sz ctor) (slot s) w = Returns a w'
           \<and> new_log w' = new_log w \<and> delete_log w' = delete_log w
           \<and> blocks w' = blocks w \<and> signals w' = signals w
           \<and> objects w' a = Some r' \<and> wf w'"
proof -
  have "rec_size r' = rec_size r" "sizeof_self r' \<le> rec_size r'"
    using assms(4,5,6) by (auto simp: ctor_ok_def)
  then have "wf (w\<lparr>objects := (objects w)(a \<mapsto> r')\<rparr>)"
    using wf_reuse[OF assms(1,2,3)] by blast
  then show ?thesis
    using emplace_with_reuse_returns[where ctor = ctor, OF assms(1,2,3,4,5)] by simp
qed

lemma emplace_with_grow_summary:
  assumes "wf w" "signals w s = Some (Some a)" "objects w a = Some r" "rec_size r < sz"
    "new_succeeds w" "ctor sz = Inr r'" "ctor_ok sz ctor"
  shows "\<exists>w'. emplace_with (create_with sz ctor) (slot s) w = Returns (next_addr w) w'
           \<and> new_log w' = new_log w @ [(next_addr w, sz)]
           \<and> delete_log w' = delete_log w @ [a]
           \<and> blocks w' = (blocks w)(a := None, next_addr w \<mapsto> sz)
           \<and> signals w' = (signals w)(s \<mapsto> Some (next_addr w))
           \<and> objects w' (next_addr w) = Some r' \<and> objects w' a = None \<and> wf w'"
proof -
  have n: "a \<noteq> next_addr w" using assms(3) wf_fresh(2)[OF assms(1)] by auto
  have "rec_size r' = sz" "sizeof_self r' \<le> sz"
    using assms(6,7) by (auto simp: ctor_ok_def)
  then have "wf (w\<lparr>signals := (signals w)(s \<mapsto> Some (next_addr w)),
          blocks := (blocks w)(a := None, next_addr w \<mapsto> sz),
          objects := (objects w)(a := None, next_addr w \<mapsto> r'),
          next_addr := Suc (next_addr w),
          new_log := new_log w @ [(next_addr w, sz)],
          delete_log := delete_log w @ [a],
          new_fails := tl (new_fails w)\<rparr>)"
    using wf_grow[OF assms(1,2)] by blast
  then show ?thesis
    using emplace_with_grow_returns[where ctor = ctor, OF assms(1,2,3,4,5,6)] n by simp
qed

text \<open>What any \<^verbatim>\<open>emplace\<close> on a slot with a record does to the harness, whatever its end.\<close>

lemma emplace_with_reuse_any:
  assumes "wf w" "signals w s = Some (Some a)" "objects w a = Some r" "sz \<le> rec_size r"
    "ctor_ok sz ctor"
  shows "\<exists>w'. continues (emplace_with (create_with sz ctor) (slot s) w) = Some w'
           \<and> new_log w' = new_log w \<and> new_fails w' = new_fails w \<and> wf w'"
proof (cases "ctor (rec_size r)")
  case (Inl e)
  show ?thesis
    using emplace_with_reuse_throws[where ctor = ctor, OF assms(1,2,3,4) Inl]
      wf_released[OF assms(1,2)]
    by simp
next
  case (Inr r')
  show ?thesis
    using emplace_with_reuse_summary[where ctor = ctor, OF assms(1,2,3,4) Inr assms(5)]
      emplace_with_reuse_returns[where ctor = ctor, OF assms(1,2,3,4) Inr]
    by auto
qed

lemma emplace_with_grow_any:
  assumes "wf w" "signals w s = Some (Some a)" "objects w a = Some r" "rec_size r < sz"
    "ctor_ok sz ctor"
  shows "\<exists>w'. continues (emplace_with (create_with sz ctor) (slot s) w) = Some w'
           \<and> count_list (delete_log w') a = 1
           \<and> new_log w' =
               (if new_succeeds w then new_log w @ [(next_addr w, sz)] else new_log w)
           \<and> wf w'"
proof -
  have nd: "a \<notin> set (delete_log w)"
    by (rule wf_not_deleted[OF assms(1) wf_record_block(1)[OF assms(1,3)]])
  then have c0: "count_list (delete_log w) a = 0" by (simp add: count_list_0_iff)
  have n: "a \<noteq> next_addr w" using assms(3) wf_fresh(2)[OF assms(1)] by auto
  have wf': "wf w'"
    if "continues (emplace_with (create_with sz ctor) (slot s) w) = Some w'" for w'
    by (rule emplace_with_wf[OF assms(1,5) that])
  show ?thesis
  proof (cases "new_succeeds w")
    case False
    have e: "emplace_with (create_with sz ctor) (slot s) w =
       Throws Bad_alloc
         (w\<lparr>signals := (signals w)(s \<mapsto> None), blocks := (blocks w)(a := None),
            objects := (objects w)(a := None), delete_log := delete_log w @ [a],
            new_fails := tl (new_fails w)\<rparr>)"
      by (rule emplace_with_grow_bad_alloc[OF assms(1,2,3,4) False])
    show ?thesis using e wf'[of "w\<lparr>signals := (signals w)(s \<mapsto> None),
            blocks := (blocks w)(a := None),
            objects := (objects w)(a := None), delete_log := delete_log w @ [a],
            new_fails := tl (new_fails w)\<rparr>"] c0 False
      by simp
  next
    case ns: True
    show ?thesis
    proof (cases "ctor sz")
      case (Inl e)
      have e: "emplace_with (create_with sz ctor) (slot s) w =
         Throws e
           (w\<lparr>signals := (signals w)(s \<mapsto> None),
              blocks := (blocks w)(a := None),
              objects := (objects w)(a := None),
              next_addr := Suc (next_addr w),
              new_log := new_log w @ [(next_addr w, sz)],
              delete_log := delete_log w @ [a, next_addr w],
              new_fails := tl (new_fails w)\<rparr>)"
        by (rule emplace_with_grow_throws[where ctor = ctor, OF assms(1,2,3,4) ns Inl])
      show ?thesis using e wf'[of "w\<lparr>signals := (signals w)(s \<mapsto> None),
              blocks := (blocks w)(a := None),
              objects := (objects w)(a := None),
              next_addr := Suc (next_addr w),
              new_log := new_log w @ [(next_addr w, sz)],
              delete_log := delete_log w @ [a, next_addr w],
              new_fails := tl (new_fails w)\<rparr>"] c0 n ns
        by simp
    next
      case (Inr r')
      obtain w' where w': "emplace_with (create_with sz ctor) (slot s) w
          = Returns (next_addr w) w'"
        "new_log w' = new_log w @ [(next_addr w, sz)]" "delete_log w' = delete_log w @ [a]"
        "wf w'"
        using emplace_with_grow_summary[where ctor = ctor, OF assms(1,2,3,4) ns Inr assms(5)]
        by blast
      show ?thesis using w' c0 ns by (intro exI[of _ w']) simp
    qed
  qed
qed

lemma continues_emplace:
  "continues (emplace sz Handler Context sl handler args w) =
   continues (emplace_with (create_with sz
      (\<lambda>cap. cancellation_handler_ctor sz Handler Context cap handler args)) sl w)"
  by (simp add: emplace_def create_eq continues_and_then_Returns)

lemma continues_emplace_void:
  "continues (emplace_void sz Handler sl handler w) =
   continues (emplace_with (create_with sz
      (\<lambda>cap. cancellation_handler_void_ctor sz Handler cap handler)) sl w)"
  by (simp add: emplace_void_def create_void_eq continues_and_then_Returns)

text \<open>
  C2, as claimed: every \<^verbatim>\<open>emplace\<close> whose realization fits the block of the installed
  record would call the allocator not at all, and every larger one would allocate one
  fresh block. With a record in a 64-byte block, a 32-byte \<^verbatim>\<open>emplace\<close> whose handler
  constructor throws frees the block, since \<^verbatim>\<open>create\<close> catches, calls
  \<^verbatim>\<open>::operator delete\<close> and rethrows; and a 128-byte \<^verbatim>\<open>emplace\<close> for which
  \<^verbatim>\<open>::operator new\<close> throws allocates no block.
\<close>

theorem C2_failing_emplace_counterexample:
  "objects world_installed 0 = Some (With_context 7 9 64 64)
   \<and> delete_log world_installed = []
   \<and> emplace 32 (\<lambda>x. Inl (User_exception x)) Inr (slot 0) 5 6 world_installed =
       Throws (User_exception 5)
         (world_installed\<lparr>signals := [0 \<mapsto> None], blocks := Map.empty,
            objects := Map.empty, delete_log := [0]\<rparr>)
   \<and> emplace 128 Inr Inr (slot 0) 5 6 (world_installed\<lparr>new_fails := [True]\<rparr>) =
       Throws Bad_alloc
         (world_installed\<lparr>signals := [0 \<mapsto> None], blocks := Map.empty,
            objects := Map.empty, delete_log := [0], new_fails := []\<rparr>)
   \<and> new_log (world_installed\<lparr>signals := [0 \<mapsto> None], blocks := Map.empty,
            objects := Map.empty, delete_log := [0], new_fails := []\<rparr>)
       = new_log world_installed"
  by (simp add: run_defs world_installed_def)

text \<open>
  C2, amended. On a slot whose signal has a record installed, with the invariant
  holding, every \<^verbatim>\<open>emplace\<close> (of either form) returns or throws, and the invariant holds
  again, so the same applies to the next call of a sequence. Moreover:
  \<^item> when the new realization's size is at most the size the installed record stores
    (the capacity of its block), \<^verbatim>\<open>::operator new\<close> is not called, however the call
    ends; and when the user constructors do not throw, the call returns with both
    harness logs unchanged, so without any call of the allocator, the new record being
    in the same block;
  \<^item> when the size is larger, the old block is freed exactly once, however the call
    ends (it occurs once in the log of frees afterwards); one fresh block of exactly
    the realization's size is allocated when \<^verbatim>\<open>::operator new\<close> does not fail, and none
    when it fails; and when in addition the user constructors do not throw, the call
    returns, the only free being that of the old block, with the new record in the
    fresh block.
\<close>

theorem C2_emplace_allocator_calls:
  assumes "wf w" "signals w s = Some (Some a)" "objects w a = Some r"
  shows
    "(sz \<le> rec_size r \<longrightarrow>
        (\<exists>w'. continues (emplace sz Handler Context (slot s) handler args w) = Some w'
           \<and> new_log w' = new_log w \<and> new_fails w' = new_fails w \<and> wf w')
      \<and> (\<exists>w'. continues (emplace_void sz Handler (slot s) handler w) = Some w'
           \<and> new_log w' = new_log w \<and> new_fails w' = new_fails w \<and> wf w')
      \<and> (Handler handler = Inr h \<and> Context args = Inr c \<longrightarrow>
           (\<exists>w'. emplace sz Handler Context (slot s) handler args w = Returns (Context_of a) w'
              \<and> new_log w' = new_log w \<and> delete_log w' = delete_log w
              \<and> blocks w' = blocks w \<and> signals w' = signals w
              \<and> objects w' a = Some (With_context h c (rec_size r) sz) \<and> wf w'))
      \<and> (Handler handler = Inr h \<longrightarrow>
           (\<exists>w'. emplace_void sz Handler (slot s) handler w = Returns () w'
              \<and> new_log w' = new_log w \<and> delete_log w' = delete_log w
              \<and> blocks w' = blocks w \<and> signals w' = signals w
              \<and> objects w' a = Some (Without_context h (rec_size r) sz) \<and> wf w')))
   \<and> (rec_size r < sz \<longrightarrow>
        a \<notin> set (delete_log w) \<and> blocks w (next_addr w) = None
      \<and> (\<exists>w'. continues (emplace sz Handler Context (slot s) handler args w) = Some w'
           \<and> count_list (delete_log w') a = 1
           \<and> new_log w' =
               (if new_succeeds w then new_log w @ [(next_addr w, sz)] else new_log w)
           \<and> wf w')
      \<and> (\<exists>w'. continues (emplace_void sz Handler (slot s) handler w) = Some w'
           \<and> count_list (delete_log w') a = 1
           \<and> new_log w' =
               (if new_succeeds w then new_log w @ [(next_addr w, sz)] else new_log w)
           \<and> wf w')
      \<and> (new_succeeds w \<and> Handler handler = Inr h \<and> Context args = Inr c \<longrightarrow>
           (\<exists>w'. emplace sz Handler Context (slot s) handler args w
                    = Returns (Context_of (next_addr w)) w'
              \<and> new_log w' = new_log w @ [(next_addr w, sz)]
              \<and> delete_log w' = delete_log w @ [a]
              \<and> blocks w' = (blocks w)(a := None, next_addr w \<mapsto> sz)
              \<and> signals w' = (signals w)(s \<mapsto> Some (next_addr w))
              \<and> objects w' (next_addr w) = Some (With_context h c sz sz)
              \<and> objects w' a = None \<and> wf w'))
      \<and> (new_succeeds w \<and> Handler handler = Inr h \<longrightarrow>
           (\<exists>w'. emplace_void sz Handler (slot s) handler w = Returns () w'
              \<and> new_log w' = new_log w @ [(next_addr w, sz)]
              \<and> delete_log w' = delete_log w @ [a]
              \<and> blocks w' = (blocks w)(a := None, next_addr w \<mapsto> sz)
              \<and> signals w' = (signals w)(s \<mapsto> Some (next_addr w))
              \<and> objects w' (next_addr w) = Some (Without_context h sz sz)
              \<and> objects w' a = None \<and> wf w')))"
proof (intro conjI impI)
  let ?ctx = "\<lambda>cap. cancellation_handler_ctor sz Handler Context cap handler args"
  let ?void = "\<lambda>cap. cancellation_handler_void_ctor sz Handler cap handler
                 :: exn + ('a, 'b) cancellation_handler"
  {
    assume le: "sz \<le> rec_size r"
    show "\<exists>w'. continues (emplace sz Handler Context (slot s) handler args w) = Some w'
           \<and> new_log w' = new_log w \<and> new_fails w' = new_fails w \<and> wf w'"
      using emplace_with_reuse_any[where ctor = ?ctx, OF assms le ctor_ok_ctx]
      by (simp add: continues_emplace)
    show "\<exists>w'. continues (emplace_void sz Handler (slot s) handler w) = Some w'
           \<and> new_log w' = new_log w \<and> new_fails w' = new_fails w \<and> wf w'"
      using emplace_with_reuse_any[where ctor = ?void, OF assms le ctor_ok_void]
      by (simp add: continues_emplace_void)
    {
      assume "Handler handler = Inr h \<and> Context args = Inr c"
      then have ctx: "?ctx n = Inr (With_context h c n sz)" for n
        by (simp add: cancellation_handler_ctor_def)
      show "\<exists>w'. emplace sz Handler Context (slot s) handler args w = Returns (Context_of a) w'
              \<and> new_log w' = new_log w \<and> delete_log w' = delete_log w
              \<and> blocks w' = blocks w \<and> signals w' = signals w
              \<and> objects w' a = Some (With_context h c (rec_size r) sz) \<and> wf w'"
        using emplace_with_reuse_summary[where ctor = ?ctx, OF assms le ctx ctor_ok_ctx]
        by (auto simp: emplace_def create_eq context_member_def)
    }
    {
      assume "Handler handler = Inr h"
      then have void: "?void n = Inr (Without_context h n sz)" for n
        by (simp add: cancellation_handler_void_ctor_def)
      show "\<exists>w'. emplace_void sz Handler (slot s) handler w = Returns () w'
              \<and> new_log w' = new_log w \<and> delete_log w' = delete_log w
              \<and> blocks w' = blocks w \<and> signals w' = signals w
              \<and> objects w' a = Some (Without_context h (rec_size r) sz) \<and> wf w'"
        using emplace_with_reuse_summary[where ctor = ?void, OF assms le void ctor_ok_void]
        by (auto simp: emplace_void_def create_void_eq)
    }
  }
  {
    assume gt: "rec_size r < sz"
    show "a \<notin> set (delete_log w)"
      by (rule wf_not_deleted[OF assms(1) wf_record_block(1)[OF assms(1,3)]])
    show "blocks w (next_addr w) = None" by (rule wf_fresh(1)[OF assms(1)])
    show "\<exists>w'. continues (emplace sz Handler Context (slot s) handler args w) = Some w'
           \<and> count_list (delete_log w') a = 1
           \<and> new_log w' =
               (if new_succeeds w then new_log w @ [(next_addr w, sz)] else new_log w)
           \<and> wf w'"
      using emplace_with_grow_any[where ctor = ?ctx, OF assms gt ctor_ok_ctx]
      by (simp add: continues_emplace)
    show "\<exists>w'. continues (emplace_void sz Handler (slot s) handler w) = Some w'
           \<and> count_list (delete_log w') a = 1
           \<and> new_log w' =
               (if new_succeeds w then new_log w @ [(next_addr w, sz)] else new_log w)
           \<and> wf w'"
      using emplace_with_grow_any[where ctor = ?void, OF assms gt ctor_ok_void]
      by (simp add: continues_emplace_void)
    {
      assume "new_succeeds w \<and> Handler handler = Inr h \<and> Context args = Inr c"
      then have ns: "new_succeeds w" and ctx: "?ctx n = Inr (With_context h c n sz)" for n
        by (simp_all add: cancellation_handler_ctor_def)
      show "\<exists>w'. emplace sz Handler Context (slot s) handler args w
                    = Returns (Context_of (next_addr w)) w'
              \<and> new_log w' = new_log w @ [(next_addr w, sz)]
              \<and> delete_log w' = delete_log w @ [a]
              \<and> blocks w' = (blocks w)(a := None, next_addr w \<mapsto> sz)
              \<and> signals w' = (signals w)(s \<mapsto> Some (next_addr w))
              \<and> objects w' (next_addr w) = Some (With_context h c sz sz)
              \<and> objects w' a = None \<and> wf w'"
        using emplace_with_grow_summary[where ctor = ?ctx, OF assms gt ns ctx ctor_ok_ctx]
        by (auto simp: emplace_def create_eq context_member_def)
    }
    {
      assume "new_succeeds w \<and> Handler handler = Inr h"
      then have ns: "new_succeeds w" and void: "?void n = Inr (Without_context h n sz)" for n
        by (simp_all add: cancellation_handler_void_ctor_def)
      show "\<exists>w'. emplace_void sz Handler (slot s) handler w = Returns () w'
              \<and> new_log w' = new_log w @ [(next_addr w, sz)]
              \<and> delete_log w' = delete_log w @ [a]
              \<and> blocks w' = (blocks w)(a := None, next_addr w \<mapsto> sz)
              \<and> signals w' = (signals w)(s \<mapsto> Some (next_addr w))
              \<and> objects w' (next_addr w) = Some (Without_context h sz sz)
              \<and> objects w' a = None \<and> wf w'"
        using emplace_with_grow_summary[where ctor = ?void, OF assms gt ns void ctor_ok_void]
        by (auto simp: emplace_void_def create_void_eq)
    }
  }
qed

theorem C2_emplace_allocator_calls_witness:
  "wf world_installed
   \<and> (\<exists>w'. emplace 32 Inr Inr (slot 0) 5 6 world_installed = Returns (Context_of 0) w'
         \<and> new_log w' = [(0, 64)] \<and> delete_log w' = []
         \<and> objects w' 0 = Some (With_context 5 6 64 32))
   \<and> (\<exists>w'. emplace_void 32 Inr (slot 0) 5 world_installed = Returns () w'
         \<and> new_log w' = [(0, 64)] \<and> delete_log w' = []
         \<and> objects w' 0 = Some (Without_context 5 64 32))
   \<and> (\<exists>w'. emplace 128 Inr Inr (slot 0) 5 6 world_installed = Returns (Context_of 1) w'
         \<and> new_log w' = [(0, 64), (1, 128)] \<and> delete_log w' = [0]
         \<and> objects w' 1 = Some (With_context 5 6 128 128))
   \<and> (\<exists>w'. emplace_void 128 Inr (slot 0) 5 world_installed = Returns () w'
         \<and> new_log w' = [(0, 64), (1, 128)] \<and> delete_log w' = [0]
         \<and> objects w' 1 = Some (Without_context 5 128 128))
   \<and> (\<exists>w'. continues (emplace 32 (\<lambda>x. Inl (User_exception x)) Inr (slot 0) 5 6
                world_installed) = Some w'
         \<and> new_log w' = [(0, 64)])
   \<and> (\<exists>w'. continues (emplace 128 Inr Inr (slot 0) 5 6
                (world_installed\<lparr>new_fails := [True]\<rparr>)) = Some w'
         \<and> count_list (delete_log w') 0 = 1 \<and> new_log w' = [(0, 64)])"
proof -
  let ?oom = "world_installed\<lparr>new_fails := [True]\<rparr>"
  have wo: "wf ?oom" by (rule wf_fields[OF wf_world_installed]) simp_all
  have s: "signals world_installed 0 = Some (Some 0)" "signals ?oom 0 = Some (Some 0)"
    and ob: "objects world_installed 0 = Some (With_context 7 9 64 64)"
      "objects ?oom 0 = Some (With_context 7 9 64 64)"
    and ns: "new_succeeds world_installed" "\<not> new_succeeds ?oom"
    and lg: "new_log world_installed = [(0, 64)]" "delete_log world_installed = []"
      "next_addr world_installed = 1" "new_log ?oom = [(0, 64)]"
    by (simp_all add: world_installed_def new_succeeds_def)
  note small = C2_emplace_allocator_calls [where Handler = "Inr :: nat \<Rightarrow> exn + nat"
      and handler = 5 and h = 5 and Context = "Inr :: nat \<Rightarrow> exn + nat" and args = 6
      and c = 6 and sz = 32, OF wf_world_installed s(1) ob(1)]
  note large = C2_emplace_allocator_calls [where Handler = "Inr :: nat \<Rightarrow> exn + nat"
      and handler = 5 and h = 5 and Context = "Inr :: nat \<Rightarrow> exn + nat" and args = 6
      and c = 6 and sz = 128, OF wf_world_installed s(1) ob(1)]
  note thrown = C2_emplace_allocator_calls [where
      Handler = "\<lambda>x. Inl (User_exception x) :: exn + nat"
      and handler = 5 and h = 5 and Context = "Inr :: nat \<Rightarrow> exn + nat" and args = 6
      and c = 6 and sz = 32, OF wf_world_installed s(1) ob(1)]
  note oom = C2_emplace_allocator_calls [where Handler = "Inr :: nat \<Rightarrow> exn + nat"
      and handler = 5 and h = 5 and Context = "Inr :: nat \<Rightarrow> exn + nat" and args = 6
      and c = 6 and sz = 128, OF wo s(2) ob(2)]
  have 1: "(\<exists>w'. emplace 32 Inr Inr (slot 0) 5 6 world_installed = Returns (Context_of 0) w'
         \<and> new_log w' = [(0, 64)] \<and> delete_log w' = []
         \<and> objects w' 0 = Some (With_context 5 6 64 32))
     \<and> (\<exists>w'. emplace_void 32 Inr (slot 0) 5 world_installed = Returns () w'
         \<and> new_log w' = [(0, 64)] \<and> delete_log w' = []
         \<and> objects w' 0 = Some (Without_context 5 64 32))"
    using small lg by (simp, blast)
  have 2: "(\<exists>w'. emplace 128 Inr Inr (slot 0) 5 6 world_installed = Returns (Context_of 1) w'
         \<and> new_log w' = [(0, 64), (1, 128)] \<and> delete_log w' = [0]
         \<and> objects w' 1 = Some (With_context 5 6 128 128))
     \<and> (\<exists>w'. emplace_void 128 Inr (slot 0) 5 world_installed = Returns () w'
         \<and> new_log w' = [(0, 64), (1, 128)] \<and> delete_log w' = [0]
         \<and> objects w' 1 = Some (Without_context 5 128 128))"
    using large ns(1) lg by (simp, blast)
  have 3: "\<exists>w'. continues (emplace 32 (\<lambda>x. Inl (User_exception x)) Inr (slot 0) 5 6
                world_installed) = Some w'
         \<and> new_log w' = [(0, 64)]"
    using thrown lg by (simp, blast)
  have 4: "\<exists>w'. continues (emplace 128 Inr Inr (slot 0) 5 6 ?oom) = Some w'
         \<and> count_list (delete_log w') 0 = 1 \<and> new_log w' = [(0, 64)]"
    using oom ns(2) lg by (simp, blast)
  show ?thesis using 1 2 3 4 wf_world_installed by blast
qed

section \<open>Emission without a handler\<close>

text \<open>
  C3. For a signal in the state NoHandler (its \<^verbatim>\<open>handler_\<close> is null), \<^verbatim>\<open>emit()\<close> returns
  and leaves the whole state as it was: no handler is invoked (the invocation trace is
  the same), nothing is allocated or freed (the harness logs are the same), and the
  signal is unchanged.
\<close>

theorem C3_emit_no_handler:
  assumes "signals w s = Some None"
  shows "emit s w = Returns () w"
  using assms by (simp add: emit_def)

theorem C3_emit_no_handler_witness:
  "signals world_empty_signal 0 = Some None
   \<and> emit 0 world_empty_signal = Returns () world_empty_signal"
  using C3_emit_no_handler [of world_empty_signal 0]
  by (simp add: world_empty_signal_def)

section \<open>A failing emplace\<close>

lemma emplace_with_Throws_state:
  assumes "wf w" "signals w s = Some p"
    "emplace_with (create_with sz ctor) (slot s) w = Throws e w'"
  shows "signals w' = (signals w)(s \<mapsto> None)
       \<and> blocks w' = (case p of None \<Rightarrow> blocks w | Some a \<Rightarrow> (blocks w)(a := None))
       \<and> objects w' = (case p of None \<Rightarrow> objects w | Some a \<Rightarrow> (objects w)(a := None))"
proof (cases p)
  case None
  note sn = assms(2)[unfolded None]
  have idem: "(signals w)(s \<mapsto> None) = signals w" using sn by (simp add: fun_upd_idem)
  show ?thesis
  proof (cases "0 < sz")
    case False
    then show ?thesis using assms(3) sn
      by (simp add: emplace_with_def create_with_def placement_new_def slot_def)
  next
    case True
    show ?thesis
    proof (cases "new_succeeds w")
      case False
      then show ?thesis
        using assms(3) emplace_with_first_bad_alloc[OF sn True False, of ctor] idem None
        by auto
    next
      case ns: True
      show ?thesis
      proof (cases "ctor sz")
        case (Inl e')
        then show ?thesis
          using assms(3) emplace_with_first_throws[where ctor = ctor, OF assms(1) sn True ns Inl]
            idem None
          by auto
      next
        case (Inr r')
        then show ?thesis
          using assms(3) emplace_with_first_returns[where ctor = ctor, OF assms(1) sn True ns Inr]
          by simp
      qed
    qed
  qed
next
  case (Some a)
  note sa = assms(2)[unfolded Some]
  obtain r where r: "objects w a = Some r" using wf_installed[OF assms(1) sa] by blast
  show ?thesis
  proof (cases "sz \<le> rec_size r")
    case le: True
    show ?thesis
    proof (cases "ctor (rec_size r)")
      case (Inl e')
      then show ?thesis
        using assms(3) emplace_with_reuse_throws[where ctor = ctor, OF assms(1) sa r le Inl] Some
        by auto
    next
      case (Inr r')
      then show ?thesis
        using assms(3) emplace_with_reuse_returns[where ctor = ctor, OF assms(1) sa r le Inr]
        by simp
    qed
  next
    case False
    then have gt: "rec_size r < sz" by simp
    show ?thesis
    proof (cases "new_succeeds w")
      case False
      then show ?thesis
        using assms(3) emplace_with_grow_bad_alloc[OF assms(1) sa r gt False, of ctor] Some
        by auto
    next
      case ns: True
      show ?thesis
      proof (cases "ctor sz")
        case (Inl e')
        then show ?thesis
          using assms(3) emplace_with_grow_throws[where ctor = ctor, OF assms(1) sa r gt ns Inl]
            Some
          by auto
      next
        case (Inr r')
        then show ?thesis
          using assms(3) emplace_with_grow_returns[where ctor = ctor, OF assms(1) sa r gt ns Inr]
          by simp
      qed
    qed
  qed
qed

lemma emplace_with_bad_alloc:
  assumes "wf w" "signals w s = Some p" "0 < sz" "reusable_size p w < sz" "\<not> new_succeeds w"
  shows "\<exists>w'. emplace_with (create_with sz ctor) (slot s) w = Throws Bad_alloc w'"
proof (cases p)
  case None
  then show ?thesis
    using emplace_with_first_bad_alloc[OF _ assms(3,5), of s ctor] assms(2) by simp
next
  case (Some a)
  note sa = assms(2)[unfolded Some]
  obtain r where r: "objects w a = Some r" using wf_installed[OF assms(1) sa] by blast
  have gt: "rec_size r < sz" using assms(4) r Some by (simp add: reusable_size_def)
  show ?thesis
    using emplace_with_grow_bad_alloc[OF assms(1) sa r gt assms(5), of ctor] by simp
qed

lemma emplace_with_ctor_throws:
  assumes "wf w" "signals w s = Some p" "0 < sz" "sz \<le> reusable_size p w \<or> new_succeeds w"
    "\<And>n. ctor n = Inl e"
  shows "\<exists>w'. emplace_with (create_with sz ctor) (slot s) w = Throws e w'"
proof (cases p)
  case None
  note sn = assms(2)[unfolded None]
  have ns: "new_succeeds w" using assms(3,4) None by (simp add: reusable_size_def)
  show ?thesis
    using emplace_with_first_throws[where ctor = ctor, OF assms(1) sn assms(3) ns assms(5)]
    by simp
next
  case (Some a)
  note sa = assms(2)[unfolded Some]
  obtain r where r: "objects w a = Some r" using wf_installed[OF assms(1) sa] by blast
  show ?thesis
  proof (cases "sz \<le> rec_size r")
    case True
    then show ?thesis
      using emplace_with_reuse_throws[where ctor = ctor, OF assms(1) sa r True assms(5)]
      by simp
  next
    case False
    then have gt: "rec_size r < sz" by simp
    then have ns: "new_succeeds w" using assms(4) r Some by (simp add: reusable_size_def)
    show ?thesis
      using emplace_with_grow_throws[where ctor = ctor, OF assms(1) sa r gt ns assms(5)]
      by simp
  qed
qed

lemma emplace_Throws:
  "emplace sz Handler Context sl handler args w = Throws e w' \<longleftrightarrow>
   emplace_with (create_with sz
      (\<lambda>cap. cancellation_handler_ctor sz Handler Context cap handler args)) sl w
     = Throws e w'"
  by (cases "emplace_with (create_with sz
      (\<lambda>cap. cancellation_handler_ctor sz Handler Context cap handler args)) sl w")
    (simp_all add: emplace_def create_eq)

lemma emplace_void_Throws:
  "emplace_void sz Handler sl handler w = Throws e (w' :: ('h, 'c) world) \<longleftrightarrow>
   emplace_with (create_with sz
      (\<lambda>cap. cancellation_handler_void_ctor sz Handler cap handler)) sl w
     = Throws e w'"
  by (cases "emplace_with (create_with sz
      (\<lambda>cap. cancellation_handler_void_ctor sz Handler cap handler)) sl w")
    (simp_all add: emplace_void_def create_void_eq)

text \<open>
  C4. On the slot of a live signal, with the invariant holding:
  \<^item> whenever \<^verbatim>\<open>emplace\<close> (of either form) throws, the caller gets the exception with
    the signal's pointer null, so the slot has no handler; the live blocks are those
    from before without the block of the previous record, and the records likewise, so
    the previous handler is gone and the block under construction was freed; the
    invariant, by which every live block belongs to a signal, holds again;
  \<^item> when a fresh block is needed and the allocator fails, \<^verbatim>\<open>emplace\<close> throws
    \<^verbatim>\<open>std::bad_alloc\<close>;
  \<^item> when the block is there and the constructor of the handler, or after it that of
    the context, throws, \<^verbatim>\<open>emplace\<close> throws that exception.
\<close>

theorem C4_emplace_failure:
  assumes "wf w" "signals w s = Some p" "0 < sz"
  shows
    "(\<forall>e' w'. emplace sz Handler Context (slot s) handler args w = Throws e' w'
              \<or> emplace_void sz Handler (slot s) handler w = Throws e' w' \<longrightarrow>
         signals w' = (signals w)(s \<mapsto> None)
       \<and> has_handler (slot s) w' = Some False
       \<and> blocks w' = (case p of None \<Rightarrow> blocks w | Some a \<Rightarrow> (blocks w)(a := None))
       \<and> objects w' = (case p of None \<Rightarrow> objects w | Some a \<Rightarrow> (objects w)(a := None))
       \<and> wf w')
   \<and> (reusable_size p w < sz \<and> \<not> new_succeeds w \<longrightarrow>
         (\<exists>w'. emplace sz Handler Context (slot s) handler args w = Throws Bad_alloc w')
       \<and> (\<exists>w'. emplace_void sz Handler (slot s) handler w = Throws Bad_alloc w'))
   \<and> ((sz \<le> reusable_size p w \<or> new_succeeds w) \<and> Handler handler = Inl e \<longrightarrow>
         (\<exists>w'. emplace sz Handler Context (slot s) handler args w = Throws e w')
       \<and> (\<exists>w'. emplace_void sz Handler (slot s) handler w = Throws e w'))
   \<and> ((sz \<le> reusable_size p w \<or> new_succeeds w)
        \<and> (\<exists>h. Handler handler = Inr h) \<and> Context args = Inl e \<longrightarrow>
         (\<exists>w'. emplace sz Handler Context (slot s) handler args w = Throws e w'))"
proof (intro conjI allI impI)
  let ?ctx = "\<lambda>cap. cancellation_handler_ctor sz Handler Context cap handler args"
  let ?void = "\<lambda>cap. cancellation_handler_void_ctor sz Handler cap handler
                 :: exn + ('a, 'b) cancellation_handler"
  {
    fix e' w'
    assume "emplace sz Handler Context (slot s) handler args w = Throws e' w'
              \<or> emplace_void sz Handler (slot s) handler w = Throws e' w'"
    then consider
        (ctx) "emplace_with (create_with sz ?ctx) (slot s) w = Throws e' w'"
      | (void) "emplace_with (create_with sz ?void) (slot s) w = Throws e' w'"
      by (auto simp: emplace_Throws emplace_void_Throws)
    note which = this
    have st: "signals w' = (signals w)(s \<mapsto> None)
       \<and> blocks w' = (case p of None \<Rightarrow> blocks w | Some a \<Rightarrow> (blocks w)(a := None))
       \<and> objects w' = (case p of None \<Rightarrow> objects w | Some a \<Rightarrow> (objects w)(a := None))"
    proof (rule which)
      assume "emplace_with (create_with sz ?ctx) (slot s) w = Throws e' w'"
      then show ?thesis by (rule emplace_with_Throws_state[OF assms(1,2)])
    next
      assume "emplace_with (create_with sz ?void) (slot s) w = Throws e' w'"
      then show ?thesis by (rule emplace_with_Throws_state[OF assms(1,2)])
    qed
    have wf': "wf w'"
    proof (rule which)
      assume "emplace_with (create_with sz ?ctx) (slot s) w = Throws e' w'"
      then have "continues (emplace_with (create_with sz ?ctx) (slot s) w) = Some w'" by simp
      then show ?thesis by (rule emplace_with_wf[OF assms(1) ctor_ok_ctx])
    next
      assume "emplace_with (create_with sz ?void) (slot s) w = Throws e' w'"
      then have "continues (emplace_with (create_with sz ?void) (slot s) w) = Some w'" by simp
      then show ?thesis by (rule emplace_with_wf[OF assms(1) ctor_ok_void])
    qed
    show "signals w' = (signals w)(s \<mapsto> None)" using st by simp
    then show "has_handler (slot s) w' = Some False" by (simp add: has_handler_def slot_def)
    show "blocks w' = (case p of None \<Rightarrow> blocks w | Some a \<Rightarrow> (blocks w)(a := None))"
      using st by simp
    show "objects w' = (case p of None \<Rightarrow> objects w | Some a \<Rightarrow> (objects w)(a := None))"
      using st by simp
    show "wf w'" by (rule wf')
  }
  {
    assume "reusable_size p w < sz \<and> \<not> new_succeeds w"
    then have a: "reusable_size p w < sz" "\<not> new_succeeds w" by simp_all
    show "\<exists>w'. emplace sz Handler Context (slot s) handler args w = Throws Bad_alloc w'"
      using emplace_with_bad_alloc[OF assms a, of ?ctx] by (simp add: emplace_Throws)
    show "\<exists>w'. emplace_void sz Handler (slot s) handler w = Throws Bad_alloc w'"
      using emplace_with_bad_alloc[OF assms a, of ?void] by (simp add: emplace_void_Throws)
  }
  {
    assume "(sz \<le> reusable_size p w \<or> new_succeeds w) \<and> Handler handler = Inl e"
    then have a: "sz \<le> reusable_size p w \<or> new_succeeds w" and h: "Handler handler = Inl e"
      by simp_all
    have "?ctx n = Inl e" for n using h by (simp add: cancellation_handler_ctor_def)
    then show "\<exists>w'. emplace sz Handler Context (slot s) handler args w = Throws e w'"
      using emplace_with_ctor_throws[OF assms a, of ?ctx e] by (simp add: emplace_Throws)
    have "?void n = Inl e" for n using h by (simp add: cancellation_handler_void_ctor_def)
    then show "\<exists>w'. emplace_void sz Handler (slot s) handler w = Throws e w'"
      using emplace_with_ctor_throws[OF assms a, of ?void e] by (simp add: emplace_void_Throws)
  }
  {
    assume "(sz \<le> reusable_size p w \<or> new_succeeds w)
        \<and> (\<exists>h. Handler handler = Inr h) \<and> Context args = Inl e"
    then obtain h where a: "sz \<le> reusable_size p w \<or> new_succeeds w"
      and h: "Handler handler = Inr h" "Context args = Inl e"
      by blast
    have "?ctx n = Inl e" for n using h by (simp add: cancellation_handler_ctor_def)
    then show "\<exists>w'. emplace sz Handler Context (slot s) handler args w = Throws e w'"
      using emplace_with_ctor_throws[OF assms a, of ?ctx e] by (simp add: emplace_Throws)
  }
qed

theorem C4_emplace_failure_witness:
  "(\<exists>w'. emplace 128 Inr Inr (slot 0) 5 6 (world_installed\<lparr>new_fails := [True]\<rparr>)
           = Throws Bad_alloc w'
         \<and> signals w' 0 = Some None \<and> has_handler (slot 0) w' = Some False
         \<and> blocks w' = Map.empty \<and> objects w' = Map.empty \<and> wf w')
   \<and> (\<exists>w'. emplace 32 (\<lambda>x. Inl (User_exception x)) Inr (slot 0) 5 6 world_installed
           = Throws (User_exception 5) w'
         \<and> signals w' 0 = Some None \<and> has_handler (slot 0) w' = Some False
         \<and> blocks w' = Map.empty \<and> objects w' = Map.empty \<and> wf w')
   \<and> (\<exists>w'. emplace 32 Inr (\<lambda>x. Inl (User_exception x)) (slot 0) 5 6 world_installed
           = Throws (User_exception 6) w'
         \<and> signals w' 0 = Some None \<and> has_handler (slot 0) w' = Some False
         \<and> blocks w' = Map.empty \<and> objects w' = Map.empty \<and> wf w')"
proof -
  let ?oom = "world_installed\<lparr>new_fails := [True]\<rparr>"
  have wo: "wf ?oom" by (rule wf_fields[OF wf_world_installed]) simp_all
  have s: "signals world_installed 0 = Some (Some 0)" "signals ?oom 0 = Some (Some 0)"
    by (simp_all add: world_installed_def)
  have f: "reusable_size (Some 0) ?oom = 64" "\<not> new_succeeds ?oom"
    "reusable_size (Some 0) world_installed = 64"
    "blocks ?oom = [0 \<mapsto> 64]" "objects ?oom = [0 \<mapsto> With_context 7 9 64 64]"
    "blocks world_installed = [0 \<mapsto> 64]"
    "objects world_installed = [0 \<mapsto> With_context 7 9 64 64]"
    by (simp_all add: world_installed_def reusable_size_def new_succeeds_def)
  have z: "0 < (128 :: nat)" "0 < (32 :: nat)" by simp_all
  note oom = C4_emplace_failure [where Handler = "Inr :: nat \<Rightarrow> exn + nat" and handler = 5
      and Context = "Inr :: nat \<Rightarrow> exn + nat" and args = 6 and sz = 128
      and e = Bad_alloc, OF wo s(2) z(1)]
  note hthrow = C4_emplace_failure [where Handler = "\<lambda>x. Inl (User_exception x) :: exn + nat"
      and handler = 5 and Context = "Inr :: nat \<Rightarrow> exn + nat" and args = 6 and sz = 32
      and e = "User_exception 5", OF wf_world_installed s(1) z(2)]
  note cthrow = C4_emplace_failure [where Handler = "Inr :: nat \<Rightarrow> exn + nat"
      and handler = 5 and Context = "\<lambda>x. Inl (User_exception x) :: exn + nat" and args = 6
      and sz = 32 and e = "User_exception 6", OF wf_world_installed s(1) z(2)]
  have 1: "\<exists>w'. emplace 128 Inr Inr (slot 0) 5 6 ?oom = Throws Bad_alloc w'
         \<and> signals w' 0 = Some None \<and> has_handler (slot 0) w' = Some False
         \<and> blocks w' = Map.empty \<and> objects w' = Map.empty \<and> wf w'"
  proof -
    obtain w' where e: "emplace 128 Inr Inr (slot 0) 5 6 ?oom = Throws Bad_alloc w'"
      using oom f(1,2) by auto
    have "signals w' = (signals ?oom)(0 \<mapsto> None) \<and> has_handler (slot 0) w' = Some False
        \<and> blocks w' = (blocks ?oom)(0 := None) \<and> objects w' = (objects ?oom)(0 := None)
        \<and> wf w'"
      using oom[THEN conjunct1, rule_format, of Bad_alloc w'] e by simp
    then show ?thesis using e f by auto
  qed
  have 2: "\<exists>w'. emplace 32 (\<lambda>x. Inl (User_exception x)) Inr (slot 0) 5 6 world_installed
           = Throws (User_exception 5) w'
         \<and> signals w' 0 = Some None \<and> has_handler (slot 0) w' = Some False
         \<and> blocks w' = Map.empty \<and> objects w' = Map.empty \<and> wf w'"
  proof -
    obtain w' where e: "emplace 32 (\<lambda>x. Inl (User_exception x)) Inr (slot 0) 5 6
        world_installed = Throws (User_exception 5) w'"
      using hthrow f(3) by auto
    have "signals w' = (signals world_installed)(0 \<mapsto> None)
        \<and> has_handler (slot 0) w' = Some False
        \<and> blocks w' = (blocks world_installed)(0 := None)
        \<and> objects w' = (objects world_installed)(0 := None) \<and> wf w'"
      using hthrow[THEN conjunct1, rule_format, of "User_exception 5" w'] e by simp
    then show ?thesis using e f by auto
  qed
  have 3: "\<exists>w'. emplace 32 Inr (\<lambda>x. Inl (User_exception x)) (slot 0) 5 6 world_installed
           = Throws (User_exception 6) w'
         \<and> signals w' 0 = Some None \<and> has_handler (slot 0) w' = Some False
         \<and> blocks w' = Map.empty \<and> objects w' = Map.empty \<and> wf w'"
  proof -
    obtain w' where e: "emplace 32 Inr (\<lambda>x. Inl (User_exception x)) (slot 0) 5 6
        world_installed = Throws (User_exception 6) w'"
      using cthrow f(3) by auto
    have "signals w' = (signals world_installed)(0 \<mapsto> None)
        \<and> has_handler (slot 0) w' = Some False
        \<and> blocks w' = (blocks world_installed)(0 := None)
        \<and> objects w' = (objects world_installed)(0 := None) \<and> wf w'"
      using cthrow[THEN conjunct1, rule_format, of "User_exception 6" w'] e by simp
    then show ?thesis using e f by auto
  qed
  show ?thesis using 1 2 3 by blast
qed

section \<open>Disconnected slots\<close>

text \<open>
  C5, as claimed: \<^verbatim>\<open>clear()\<close> on a default-constructed slot would fail the assertion.
  It does not: the guard \<^verbatim>\<open>handler_ != 0\<close> makes the call return with the state as it
  was.
\<close>

theorem C5_clear_disconnected_counterexample:
  "clear default_slot (initial_world :: (nat, nat) world) = Returns () initial_world
   \<and> clear default_slot (initial_world :: (nat, nat) world) \<noteq> Assertion_failed"
  by (simp add: clear_def default_slot_def)

text \<open>
  C5, amended. On a default-constructed slot, both forms of \<^verbatim>\<open>emplace\<close> fail the
  assertion \<^verbatim>\<open>assert(handler_)\<close>, in every state and for every handler, and neither
  returns; \<^verbatim>\<open>clear()\<close> returns and changes nothing.
\<close>

theorem C5_disconnected_slot:
  "emplace sz Handler Context default_slot handler args w = Assertion_failed
   \<and> emplace_void sz Handler default_slot handler w = Assertion_failed
   \<and> clear default_slot w = Returns () w"
  by (simp add: emplace_def emplace_void_def emplace_with_def clear_def default_slot_def)

section \<open>Clearing a slot\<close>

text \<open>
  C6. On the slot of a live signal, with the invariant holding, \<^verbatim>\<open>clear()\<close> returns;
  afterwards the slot is connected and has no handler, \<^verbatim>\<open>emit()\<close> on the signal returns
  with the state unchanged, and a second \<^verbatim>\<open>clear()\<close> returns with the state unchanged.
  When no handler was installed, the first \<^verbatim>\<open>clear()\<close> changes nothing either.
\<close>

theorem C6_clear:
  assumes "wf w" "signals w s = Some p"
  shows "\<exists>w'. clear (slot s) w = Returns () w'
           \<and> is_connected (slot s)
           \<and> has_handler (slot s) w' = Some False
           \<and> emit s w' = Returns () w'
           \<and> clear (slot s) w' = Returns () w'
           \<and> wf w'
           \<and> (p = None \<longrightarrow> w' = w)"
proof (cases p)
  case None
  then have sn: "signals w s = Some None" using assms(2) by simp
  show ?thesis
    using clear_no_handler[OF sn] sn assms(1) None
    by (simp add: is_connected_def has_handler_def slot_def emit_def)
next
  case (Some a)
  then have sa: "signals w s = Some (Some a)" using assms(2) by simp
  let ?w = "w\<lparr>signals := (signals w)(s \<mapsto> None), blocks := (blocks w)(a := None),
                 objects := (objects w)(a := None), delete_log := delete_log w @ [a]\<rparr>"
  have c: "clear (slot s) w = Returns () ?w" by (rule clear_installed[OF assms(1) sa])
  have sn: "signals ?w s = Some None" by simp
  have "clear (slot s) ?w = Returns () ?w" by (rule clear_no_handler[OF sn])
  moreover have "emit s ?w = Returns () ?w" using sn by (simp add: emit_def)
  moreover have "wf ?w" by (rule wf_released[OF assms(1) sa])
  ultimately show ?thesis
    using c Some by (simp add: is_connected_def has_handler_def slot_def)
qed

theorem C6_clear_witness:
  "(\<exists>w'. clear (slot 0) world_installed = Returns () w'
       \<and> is_connected (slot 0) \<and> has_handler (slot 0) w' = Some False
       \<and> emit 0 w' = Returns () w' \<and> clear (slot 0) w' = Returns () w')
   \<and> has_handler (slot 0) world_installed = Some True
   \<and> clear (slot 0) world_empty_signal = Returns () world_empty_signal"
proof -
  have s: "signals world_installed 0 = Some (Some 0)"
    "signals world_empty_signal 0 = Some None"
    by (simp_all add: world_installed_def world_empty_signal_def)
  have h: "has_handler (slot 0) world_installed = Some True"
    by (simp add: has_handler_def slot_def world_installed_def)
  show ?thesis
    using C6_clear [OF wf_world_installed s(1)] C6_clear [OF wf_world_empty_signal s(2)] h
    by auto
qed

section \<open>Destruction of a signal\<close>

lemma alloc_balance:
  assumes "alloc_ok w"
  shows "length (new_log w) = length (delete_log w) + card (dom (blocks w))"
proof -
  have d: "distinct (map fst (new_log w))" "distinct (delete_log w)"
    using assms by (simp_all add: alloc_ok_def)
  have u: "fst ` set (new_log w) = set (delete_log w) \<union> dom (blocks w)"
    using assms unfolding alloc_ok_def by (auto simp: dom_def)
  have i: "set (delete_log w) \<inter> dom (blocks w) = {}"
    using assms unfolding alloc_ok_def by (auto simp: dom_def)
  have "dom (blocks w) \<subseteq> fst ` set (new_log w)" using u by blast
  then have f: "finite (dom (blocks w))" by (rule finite_subset) simp
  have "length (new_log w) = card (set (map fst (new_log w)))"
    using distinct_card[OF d(1)] by simp
  also have "\<dots> = card (set (delete_log w) \<union> dom (blocks w))" using u by simp
  also have "\<dots> = card (set (delete_log w)) + card (dom (blocks w))"
    by (rule card_Un_disjoint[OF _ f i]) simp
  also have "card (set (delete_log w)) = length (delete_log w)" by (rule distinct_card[OF d(2)])
  finally show ?thesis .
qed

lemma wf_owned:
  assumes "wf w" "blocks w a = Some n"
  shows "\<exists>s. signals w s = Some (Some a)"
  using assms by (auto simp: wf_def heap_ok_def owned_ok_def)

text \<open>
  C7, as claimed: after the destruction of a signal with a handler the overall
  allocation count would equal the free count. In a state that a program reaches, with
  two signals that each hold a handler, destroying one of them leaves two allocations
  and one free: the block of the other signal is still live.
\<close>

theorem C7_two_signals_counterexample:
  "reachable world_two_installed
   \<and> signals world_two_installed 0 = Some (Some 0)
   \<and> (\<exists>w'. cancellation_signal_dtor 0 world_two_installed = Returns () w'
          \<and> length (new_log w') = 2 \<and> length (delete_log w') = 1
          \<and> length (new_log w') \<noteq> length (delete_log w')
          \<and> blocks w' = [1 \<mapsto> 64])"
proof -
  have "cancellation_signal_dtor 0 world_two_installed =
      Returns () (world_two_installed\<lparr>signals := [1 \<mapsto> Some 1], blocks := [1 \<mapsto> 64],
         objects := [1 \<mapsto> With_context 7 9 64 64], delete_log := [0]\<rparr>)"
    by (simp add: run_defs world_two_installed_def fun_upd_twist)
  then show ?thesis
    using reachable_world_two_installed by (simp add: world_two_installed_def)
qed

text \<open>
  C7, amended. Destroying a signal that has a record installed, with the invariant
  holding, returns, and it is the surrender of the record followed by the release of
  the block that the surrender returned: \<^verbatim>\<open>destroy()\<close> on the record returns its
  address and stored size and leaves the record destroyed in a block that is still
  allocated; \<^verbatim>\<open>::operator delete\<close> on that address then releases the block; and the
  signal is gone. The block is freed by it and at no other time (it occurs once in the
  log of frees); nothing is allocated. Afterwards the allocation count is the free
  count plus the number of blocks still live, each of which belongs to another signal;
  so the two counts are equal when no other signal has a handler.
\<close>

theorem C7_signal_destruction:
  assumes "wf w" "signals w s = Some (Some a)"
  shows "\<exists>w'. cancellation_signal_dtor s w = Returns () w'
           \<and> (\<exists>r w1 w2. objects w a = Some r
                \<and> destroy a w = Returns (Some a, rec_size r) w1
                \<and> objects w1 a = None \<and> blocks w1 a = Some (rec_size r)
                \<and> delete_log w1 = delete_log w
                \<and> operator_delete (Some a) w1 = Returns () w2
                \<and> w' = w2\<lparr>signals := (signals w2)(s := None)\<rparr>)
           \<and> delete_log w' = delete_log w @ [a]
           \<and> count_list (delete_log w') a = 1
           \<and> new_log w' = new_log w
           \<and> blocks w' = (blocks w)(a := None)
           \<and> objects w' = (objects w)(a := None)
           \<and> signals w' = (signals w)(s := None)
           \<and> wf w'
           \<and> length (new_log w') = length (delete_log w') + card (dom (blocks w'))
           \<and> (\<forall>b n. blocks w' b = Some n \<longrightarrow>
                (\<exists>t. t \<noteq> s \<and> signals w t = Some (Some b)))
           \<and> ((\<forall>t b. signals w t = Some (Some b) \<longrightarrow> t = s) \<longrightarrow>
                length (new_log w') = length (delete_log w'))"
proof -
  let ?w = "w\<lparr>signals := (signals w)(s := None), blocks := (blocks w)(a := None),
                 objects := (objects w)(a := None), delete_log := delete_log w @ [a]\<rparr>"
  have d: "cancellation_signal_dtor s w = Returns () ?w"
    by (rule dtor_installed[OF assms])
  have wf': "wf ?w" by (rule wf_signal_gone[OF assms])
  obtain r where r: "objects w a = Some r" using wf_installed[OF assms] by blast
  have b: "blocks w a = Some (rec_size r)" by (rule wf_record_block(1)[OF assms(1) r])
  let ?w1 = "w\<lparr>objects := (objects w)(a := None)\<rparr>"
  let ?w2 = "?w1\<lparr>blocks := (blocks ?w1)(a := None), delete_log := delete_log ?w1 @ [a]\<rparr>"
  have s1: "destroy a w = Returns (Some a, rec_size r) ?w1" using r by (simp add: destroy_def)
  have s2: "operator_delete (Some a) ?w1 = Returns () ?w2"
    using b by (simp add: operator_delete_def)
  have s3: "?w = ?w2\<lparr>signals := (signals ?w2)(s := None)\<rparr>" by simp
  have steps: "\<exists>r w1 w2. objects w a = Some r
                \<and> destroy a w = Returns (Some a, rec_size r) w1
                \<and> objects w1 a = None \<and> blocks w1 a = Some (rec_size r)
                \<and> delete_log w1 = delete_log w
                \<and> operator_delete (Some a) w1 = Returns () w2
                \<and> ?w = w2\<lparr>signals := (signals w2)(s := None)\<rparr>"
    by (intro exI[of _ r] exI[of _ ?w1] exI[of _ ?w2] conjI r s1 s2 s3) (use b in simp_all)
  have "a \<notin> set (delete_log w)" by (rule wf_not_deleted[OF assms(1) b])
  then have once: "count_list (delete_log ?w) a = 1" by (simp add: count_list_0_iff)
  have bal: "length (new_log ?w) = length (delete_log ?w) + card (dom (blocks ?w))"
    by (rule alloc_balance[OF wf_alloc_ok[OF wf']])
  have others: "\<exists>t. t \<noteq> s \<and> signals w t = Some (Some b)" if bl: "blocks ?w b = Some n" for b n
  proof -
    obtain t where t: "signals ?w t = Some (Some b)" using wf_owned[OF wf' bl] by blast
    then have "t \<noteq> s" by (auto split: if_splits)
    then show ?thesis using t by auto
  qed
  have only: "length (new_log ?w) = length (delete_log ?w)"
    if o: "\<forall>t b. signals w t = Some (Some b) \<longrightarrow> t = s"
  proof -
    have "blocks ?w b = None" for b
    proof (cases "blocks ?w b")
      case None then show ?thesis .
    next
      case (Some n)
      then show ?thesis using others[OF Some] o by blast
    qed
    then have "dom (blocks ?w) = {}" by (simp only: dom_eq_empty_conv) (rule ext)
    then have "card (dom (blocks ?w)) = 0" by (simp only: card.empty)
    then show ?thesis using bal by linarith
  qed
  show ?thesis
  proof (intro exI[of _ ?w] conjI)
    show "cancellation_signal_dtor s w = Returns () ?w" by (rule d)
    show "\<exists>r w1 w2. objects w a = Some r
                \<and> destroy a w = Returns (Some a, rec_size r) w1
                \<and> objects w1 a = None \<and> blocks w1 a = Some (rec_size r)
                \<and> delete_log w1 = delete_log w
                \<and> operator_delete (Some a) w1 = Returns () w2
                \<and> ?w = w2\<lparr>signals := (signals w2)(s := None)\<rparr>"
      by (rule steps)
    show "count_list (delete_log ?w) a = 1" by (rule once)
    show "wf ?w" by (rule wf')
    show "length (new_log ?w) = length (delete_log ?w) + card (dom (blocks ?w))" by (rule bal)
    show "\<forall>b n. blocks ?w b = Some n \<longrightarrow> (\<exists>t. t \<noteq> s \<and> signals w t = Some (Some b))"
      using others by blast
    show "(\<forall>t b. signals w t = Some (Some b) \<longrightarrow> t = s) \<longrightarrow>
                length (new_log ?w) = length (delete_log ?w)"
      using only by blast
  qed simp_all
qed

theorem C7_signal_destruction_witness:
  "(\<exists>w'. cancellation_signal_dtor 0 world_installed = Returns () w'
       \<and> new_log w' = [(0, 64)] \<and> delete_log w' = [0]
       \<and> count_list (delete_log w') 0 = 1
       \<and> length (new_log w') = length (delete_log w')
       \<and> blocks w' = Map.empty \<and> objects w' = Map.empty \<and> signals w' = Map.empty)
   \<and> (\<exists>w'. cancellation_signal_dtor 0 world_two_installed = Returns () w'
       \<and> count_list (delete_log w') 0 = 1
       \<and> length (new_log w') = length (delete_log w') + card (dom (blocks w'))
       \<and> objects w' 0 = None)"
proof -
  have s: "signals world_installed 0 = Some (Some 0)"
    and o: "\<forall>t b. signals world_installed t = Some (Some b) \<longrightarrow> t = 0"
    and f: "new_log world_installed = [(0, 64)]" "delete_log world_installed = []"
      "blocks world_installed = [0 \<mapsto> 64]" "signals world_installed = [0 \<mapsto> Some 0]"
      "objects world_installed = [0 \<mapsto> With_context 7 9 64 64]"
    and s2: "signals world_two_installed 0 = Some (Some 0)"
    by (simp_all add: world_installed_def world_two_installed_def)
  obtain w' where w': "cancellation_signal_dtor 0 world_installed = Returns () w'"
    "delete_log w' = delete_log world_installed @ [0]" "count_list (delete_log w') 0 = 1"
    "new_log w' = new_log world_installed" "blocks w' = (blocks world_installed)(0 := None)"
    "objects w' = (objects world_installed)(0 := None)"
    "signals w' = (signals world_installed)(0 := None)"
    "length (new_log w') = length (delete_log w')"
    using C7_signal_destruction [OF wf_world_installed s] o by blast
  have 1: "\<exists>w'. cancellation_signal_dtor 0 world_installed = Returns () w'
       \<and> new_log w' = [(0, 64)] \<and> delete_log w' = [0]
       \<and> count_list (delete_log w') 0 = 1
       \<and> length (new_log w') = length (delete_log w')
       \<and> blocks w' = Map.empty \<and> objects w' = Map.empty \<and> signals w' = Map.empty"
    by (rule exI[of _ w']) (use w' f in simp)
  obtain v where v: "cancellation_signal_dtor 0 world_two_installed = Returns () v"
    "count_list (delete_log v) 0 = 1"
    "length (new_log v) = length (delete_log v) + card (dom (blocks v))"
    "objects v = (objects world_two_installed)(0 := None)"
    using C7_signal_destruction [OF reachable_wf[OF reachable_world_two_installed] s2]
    by blast
  have 2: "\<exists>w'. cancellation_signal_dtor 0 world_two_installed = Returns () w'
       \<and> count_list (delete_log w') 0 = 1
       \<and> length (new_log w') = length (delete_log w') + card (dom (blocks w'))
       \<and> objects w' 0 = None"
    by (rule exI[of _ v]) (use v in simp)
  show ?thesis using 1 2 by blast
qed

section \<open>Equality of slots\<close>

text \<open>
  C8. Two slots obtained from signals compare equal exactly when the signals are the
  same object: all slots of one signal are equal, slots of two distinct signals are
  not; \<^verbatim>\<open>!=\<close> is the negation. In general equality of slots is equality of the
  storage locations they reference.
\<close>

theorem C8_slot_equality:
  "(slot_eq (slot s1) (slot s2) \<longleftrightarrow> s1 = s2)
   \<and> (slot_neq (slot s1) (slot s2) \<longleftrightarrow> s1 \<noteq> s2)
   \<and> slot_eq (slot s1) (slot s1)
   \<and> (slot_eq lhs rhs \<longleftrightarrow> slot_handler lhs = slot_handler rhs)
   \<and> (slot_neq lhs rhs \<longleftrightarrow> \<not> slot_eq lhs rhs)"
  by (simp add: slot_eq_def slot_neq_def slot_def)

section \<open>The stored size of a record\<close>



section \<open>Default-constructed slots\<close>

text \<open>
  C10. Two default-constructed slots compare equal and not unequal, although neither
  references a signal; a default-constructed slot is unequal to the slot of any signal,
  in both argument orders.
\<close>

theorem C10_default_slots:
  "slot_eq default_slot default_slot
   \<and> \<not> slot_neq default_slot default_slot
   \<and> \<not> is_connected default_slot
   \<and> \<not> slot_eq default_slot (slot s)
   \<and> \<not> slot_eq (slot s) default_slot
   \<and> slot_neq default_slot (slot s)
   \<and> slot_neq (slot s) default_slot"
  by (simp add: slot_eq_def slot_neq_def slot_def default_slot_def is_connected_def)

end
